theory Spec2Isabelle
  imports Main "HOL-Library.Word" "HOL-Library.AList"
begin

unbundle bit_operations_syntax

section \<open>Tiered watcher (package tieredwatcher)\<close>

text \<open>
  Instants (\<open>time.Time\<close>) and durations are integers counting nanoseconds; the zero
  value of \<open>time.Time\<close> is \<open>0\<close>.  \<open>a.Before(b)\<close> is \<open>a < b\<close>, \<open>a.After(b)\<close> is
  \<open>b < a\<close>, \<open>a.Equal(b)\<close> is \<open>a = b\<close>.
\<close>

type_synonym time = int

definition second :: int where
  "second = 1000000000"

definition millisecond :: int where
  "millisecond = 1000000"

definition minute :: int where
  "minute = 60 * second"

definition MaxHotSessions :: nat where
  "MaxHotSessions = 3"

definition HotInactivityTimeout :: int where
  "HotInactivityTimeout = 5 * minute"

record SessionInfo =
  ID :: string
  Path :: string
  ModTime :: time
  LastHot :: time
  FileSize :: int

datatype EventType = EventSessionCreated | EventMessageAdded | EventSessionUpdated

record Event =
  Type :: EventType
  SessionID :: string

text \<open>
  The watcher's mutable fields.  \<open>sessions\<close> is the map from session ID to its info
  (the pointer indirection carries no aliasing: every \<open>*SessionInfo\<close> is reachable
  from the map only).  \<open>watchDirs\<close> is the set of keys of \<open>map[string]bool\<close> (only
  \<open>true\<close> is ever stored).  \<open>events\<close> is the content of the buffered outbound
  channel, oldest first.  Of the configuration, \<open>scanDir\<close> is left out: no method
  of the watcher calls it.
\<close>

record TieredWatcher =
  sessions :: "string \<rightharpoonup> SessionInfo"
  hotIDs :: "string list"
  watchDirs :: "string set"
  events :: "Event list"
  closed :: bool
  rootDir :: string
  filePattern :: string
  extractID :: "string \<Rightarrow> string"

text \<open>
  What one call of \<open>PromoteToHot\<close> observes of the outside world: the clock read at
  \<open>info.LastHot = time.Now()\<close>, the clock read inside \<open>demoteOldestLocked\<close>, and
  whether \<open>tw.watcher.Add(dir)\<close> succeeds.
\<close>

record promote_io =
  now_hot :: time
  now_scan :: time
  add_ok :: bool

text \<open>
  The state right after \<open>New\<close> succeeded: no session, no hot ID, the root directory
  watched.
\<close>

definition New :: "string \<Rightarrow> string \<Rightarrow> (string \<Rightarrow> string) \<Rightarrow> TieredWatcher" where
  "New root pat ext =
     \<lparr>sessions = Map.empty, hotIDs = [], watchDirs = {root}, events = [],
      closed = False, rootDir = root, filePattern = pat, extractID = ext\<rparr>"

text \<open>
  The scan of \<open>demoteOldestLocked\<close>: \<open>i\<close> is the loop index, the accumulator is
  \<open>(oldestIdx, oldestTime)\<close>.
\<close>

fun oldestScan ::
  "(string \<rightharpoonup> SessionInfo) \<Rightarrow> string list \<Rightarrow> nat \<Rightarrow> nat \<times> time \<Rightarrow> nat \<times> time" where
  "oldestScan ss [] i acc = acc"
| "oldestScan ss (x # xs) i acc =
     (case ss x of
        Some info \<Rightarrow>
          if LastHot info < snd acc then oldestScan ss xs (Suc i) (i, LastHot info)
          else oldestScan ss xs (Suc i) acc
      | None \<Rightarrow> oldestScan ss xs (Suc i) acc)"

definition demoteOldestLocked :: "time \<Rightarrow> TieredWatcher \<Rightarrow> TieredWatcher" where
  "demoteOldestLocked now tw =
     (if hotIDs tw = [] then tw
      else
        let oldestIdx = fst (oldestScan (sessions tw) (hotIDs tw) 0 (0, now))
        in tw\<lparr>hotIDs := take oldestIdx (hotIDs tw) @ drop (Suc oldestIdx) (hotIDs tw)\<rparr>)"

text \<open>
  The tail shared by \<open>PromoteToHot\<close> and \<open>autoPromoteRecentLocked\<close>: watch the
  session's directory unless it is watched already.  \<open>Dir\<close> stands for
  \<open>filepath.Dir\<close>.
\<close>

definition watchDirOf ::
  "(string \<Rightarrow> string) \<Rightarrow> bool \<Rightarrow> SessionInfo \<Rightarrow> TieredWatcher \<Rightarrow> TieredWatcher" where
  "watchDirOf Dir ok info tw =
     (let dir = Dir (Path info)
      in if dir \<notin> watchDirs tw \<and> ok then tw\<lparr>watchDirs := insert dir (watchDirs tw)\<rparr>
         else tw)"

definition PromoteToHot ::
  "(string \<Rightarrow> string) \<Rightarrow> promote_io \<Rightarrow> string \<Rightarrow> TieredWatcher \<Rightarrow> TieredWatcher" where
  "PromoteToHot Dir io sessionID tw =
     (case sessions tw sessionID of
        None \<Rightarrow> tw
      | Some info0 \<Rightarrow>
          let info = info0\<lparr>LastHot := now_hot io\<rparr>;
              tw1 = tw\<lparr>sessions := (sessions tw)(sessionID \<mapsto> info)\<rparr>
          in if sessionID \<in> set (hotIDs tw1) then tw1
             else
               let tw2 = tw1\<lparr>hotIDs := hotIDs tw1 @ [sessionID]\<rparr>;
                   tw3 = (if length (hotIDs tw2) > MaxHotSessions
                          then demoteOldestLocked (now_scan io) tw2 else tw2)
               in watchDirOf Dir (add_ok io) info tw3)"

text \<open>
  \<open>RegisterSession\<close>: \<open>stat\<close> is the result of \<open>os.Stat(path)\<close>, the pair of the
  file's modification time and size, or \<open>None\<close> on error.
\<close>

definition RegisterSession ::
  "(time \<times> int) option \<Rightarrow> string \<Rightarrow> string \<Rightarrow> TieredWatcher \<Rightarrow> TieredWatcher" where
  "RegisterSession stat sid path tw =
     (if sessions tw sid \<noteq> None then tw
      else
        let info0 = \<lparr>ID = sid, Path = path, ModTime = 0, LastHot = 0, FileSize = 0\<rparr>;
            info = (case stat of
                      Some (mt, sz) \<Rightarrow> info0\<lparr>ModTime := mt, FileSize := sz\<rparr>
                    | None \<Rightarrow> info0)
        in tw\<lparr>sessions := (sessions tw)(sid \<mapsto> info)\<rparr>)"

text \<open>The first loop of \<open>RegisterSessions\<close>.\<close>

fun addSessions :: "SessionInfo list \<Rightarrow> TieredWatcher \<Rightarrow> TieredWatcher" where
  "addSessions [] tw = tw"
| "addSessions (s # rest) tw =
     (if sessions tw (ID s) \<noteq> None then addSessions rest tw
      else addSessions rest
             (tw\<lparr>sessions := (sessions tw)(ID s \<mapsto>
                \<lparr>ID = ID s, Path = Path s, ModTime = ModTime s, LastHot = 0,
                 FileSize = FileSize s\<rparr>)\<rparr>))"

text \<open>
  \<open>autoPromoteRecentLocked\<close> collects the sessions in map iteration order and sorts
  them with \<open>sort.Slice\<close>, which is not stable: the order of the slice \<open>sorted\<close> is
  fixed by the code only up to sessions of equal \<open>ModTime\<close>.  The model takes the
  sorted slice of IDs as the argument \<open>srt\<close>; \<open>sortedSessions\<close> says that it is a possible
  outcome of the sort.  The promotion loop reads the clock and may call
  \<open>watcher.Add\<close> once per iteration: \<open>ios i\<close> gives both for iteration \<open>i\<close>.
\<close>

fun modTimeDesc :: "(string \<rightharpoonup> SessionInfo) \<Rightarrow> string list \<Rightarrow> bool" where
  "modTimeDesc ss [] = True"
| "modTimeDesc ss [x] = True"
| "modTimeDesc ss (x # y # rest) =
     ((case (ss x, ss y) of
         (Some a, Some b) \<Rightarrow> ModTime b \<le> ModTime a
       | _ \<Rightarrow> False) \<and> modTimeDesc ss (y # rest))"

definition sortedSessions :: "TieredWatcher \<Rightarrow> string list \<Rightarrow> bool" where
  "sortedSessions tw srt =
     (distinct srt \<and> set srt = dom (sessions tw) \<and> modTimeDesc (sessions tw) srt)"

fun promoteLoop ::
  "(string \<Rightarrow> string) \<Rightarrow> (nat \<Rightarrow> time \<times> bool) \<Rightarrow> nat \<Rightarrow> string list \<Rightarrow>
   TieredWatcher \<Rightarrow> TieredWatcher" where
  "promoteLoop Dir ios i [] tw = tw"
| "promoteLoop Dir ios i (x # rest) tw =
     (if i < MaxHotSessions then
        (case sessions tw x of
           None \<Rightarrow> promoteLoop Dir ios (Suc i) rest tw
         | Some info0 \<Rightarrow>
             let info = info0\<lparr>LastHot := fst (ios i)\<rparr>;
                 tw1 = tw\<lparr>sessions := (sessions tw)(x \<mapsto> info)\<rparr>;
                 tw2 = (if x \<in> set (hotIDs tw1) then tw1
                        else tw1\<lparr>hotIDs := hotIDs tw1 @ [x]\<rparr>)
             in promoteLoop Dir ios (Suc i) rest (watchDirOf Dir (snd (ios i)) info tw2))
      else tw)"

definition autoPromoteRecentLocked ::
  "(string \<Rightarrow> string) \<Rightarrow> (nat \<Rightarrow> time \<times> bool) \<Rightarrow> string list \<Rightarrow>
   TieredWatcher \<Rightarrow> TieredWatcher" where
  "autoPromoteRecentLocked Dir ios srt tw =
     (if srt = [] then tw else promoteLoop Dir ios 0 srt tw)"

definition RegisterSessions ::
  "(string \<Rightarrow> string) \<Rightarrow> (nat \<Rightarrow> time \<times> bool) \<Rightarrow> string list \<Rightarrow> SessionInfo list \<Rightarrow>
   TieredWatcher \<Rightarrow> TieredWatcher" where
  "RegisterSessions Dir ios srt ss tw =
     autoPromoteRecentLocked Dir ios srt (addSessions ss tw)"

definition demoteInactive :: "time \<Rightarrow> TieredWatcher \<Rightarrow> TieredWatcher" where
  "demoteInactive now tw =
     (let cutoff = now - HotInactivityTimeout
      in tw\<lparr>hotIDs :=
           filter (\<lambda>x. case sessions tw x of Some info \<Rightarrow> cutoff < LastHot info | None \<Rightarrow> False)
             (hotIDs tw)\<rparr>)"

subsection \<open>Manager\<close>

text \<open>
  The manager's map from adapter ID to watcher.  \<open>PromoteSession\<close> calls
  \<open>PromoteToHot\<close> on every watcher; the calls touch disjoint watchers, so the map
  iteration order does not matter.  \<open>ios a\<close> is what the call on adapter \<open>a\<close>'s
  watcher observes.
\<close>

record Manager =
  watchers :: "string \<rightharpoonup> TieredWatcher"
  mevents :: "Event list"
  mclosed :: bool

definition PromoteSession ::
  "(string \<Rightarrow> string) \<Rightarrow> (string \<Rightarrow> promote_io) \<Rightarrow> string \<Rightarrow> Manager \<Rightarrow> Manager" where
  "PromoteSession Dir ios sessionID m =
     m\<lparr>watchers := (\<lambda>a. map_option (PromoteToHot Dir (ios a) sessionID) (watchers m a))\<rparr>"


subsection \<open>Notification consumer (\<open>watchLoop\<close>)\<close>

text \<open>
  A file-system notification as \<open>fsnotify\<close> delivers it: the path and the bit mask of
  operations (\<open>Create = 1\<close>, \<open>Write = 2\<close>, \<open>Remove = 4\<close>, the library's constants).
\<close>

record FsEvent =
  Name :: string
  Op :: "32 word"

definition Create :: "32 word" where
  "Create = 1"

definition Write :: "32 word" where
  "Write = 2"

definition Remove :: "32 word" where
  "Remove = 4"

definition debounceDelay :: int where
  "debounceDelay = 100 * millisecond"

definition eventsCap :: nat where
  "eventsCap = 32"

text \<open>
  \<open>filepath.Ext\<close> of the standard library on slash-separated paths: the suffix of the
  last path element that starts at its last dot, empty when it has no dot.
\<close>

definition filepathExt :: "string \<Rightarrow> string" where
  "filepathExt path =
     (let r = takeWhile (\<lambda>c. c \<noteq> CHR ''/'') (rev path)
      in if CHR ''.'' \<in> set r then CHR ''.'' # rev (takeWhile (\<lambda>c. c \<noteq> CHR ''.'') r) else [])"

text \<open>
  The local variables of \<open>watchLoop\<close> that outlive one iteration: \<open>lastPath\<close>, the
  single \<open>debounceTimer\<close> (the pending timer with the instant at which it fires and the
  \<open>capturedEvent\<close> of its closure, or \<open>None\<close> when none is pending) and the
  \<open>closed\<close> flag of the loop.
\<close>

record watchLoopState =
  lastPath :: string
  debounceTimer :: "(time \<times> FsEvent) option"
  loopClosed :: bool

text \<open>The non-blocking send on the outbound channel: dropped when the buffer is full.\<close>

definition sendEvent :: "Event \<Rightarrow> TieredWatcher \<Rightarrow> TieredWatcher" where
  "sendEvent ev tw = (if length (events tw) < eventsCap then tw\<lparr>events := events tw @ [ev]\<rparr> else tw)"

text \<open>The \<open>switch\<close> of the timer function: \<open>None\<close> is the \<open>return\<close> of the remove case.\<close>

definition eventTypeOf :: "32 word \<Rightarrow> EventType option" where
  "eventTypeOf op =
     (if op AND Create \<noteq> 0 then Some EventSessionCreated
      else if op AND Write \<noteq> 0 then Some EventMessageAdded
      else if op AND Remove \<noteq> 0 then None
      else Some EventSessionUpdated)"

text \<open>
  The function given to \<open>time.AfterFunc\<close>, run when the timer fires.  \<open>stat\<close> is the
  result of \<open>os.Stat(lastPath)\<close> at that moment.  The closure reads the variable
  \<open>lastPath\<close> and its own \<open>capturedEvent\<close>.
\<close>

definition timerFired ::
  "(time \<times> int) option \<Rightarrow> watchLoopState \<Rightarrow> FsEvent \<Rightarrow> TieredWatcher \<Rightarrow> TieredWatcher" where
  "timerFired stat st capturedEvent tw =
     (if loopClosed st then tw
      else
        let sessionID = extractID tw (lastPath st);
            tw1 = (case sessions tw sessionID of
                     None \<Rightarrow> tw
                   | Some info \<Rightarrow>
                       (case stat of
                          Some (mt, sz) \<Rightarrow>
                            tw\<lparr>sessions := (sessions tw)(sessionID \<mapsto>
                                  info\<lparr>ModTime := mt, FileSize := sz\<rparr>)\<rparr>
                        | None \<Rightarrow> tw))
        in case eventTypeOf (Op capturedEvent) of
             None \<Rightarrow> tw1
           | Some eventType \<Rightarrow> sendEvent \<lparr>Type = eventType, SessionID = sessionID\<rparr> tw1)"

text \<open>
  Time passing up to the instant \<open>t\<close>: a pending timer that is due by then fires.
  \<open>stat due p\<close> is what \<open>os.Stat(p)\<close> returns at the instant \<open>due\<close>.
\<close>

definition advance ::
  "(time \<Rightarrow> string \<Rightarrow> (time \<times> int) option) \<Rightarrow> time \<Rightarrow>
   watchLoopState \<times> TieredWatcher \<Rightarrow> watchLoopState \<times> TieredWatcher" where
  "advance stat t s =
     (case debounceTimer (fst s) of
        None \<Rightarrow> s
      | Some (due, ev) \<Rightarrow>
          if due \<le> t
          then ((fst s)\<lparr>debounceTimer := None\<rparr>,
                timerFired (stat due (lastPath (fst s))) (fst s) ev (snd s))
          else s)"

text \<open>
  One iteration of the loop for an event received at the instant \<open>t\<close>: events of other
  extensions are skipped; otherwise \<open>lastPath\<close> is overwritten, the pending timer is
  stopped and a new one is started.
\<close>

definition onEvent :: "time \<Rightarrow> FsEvent \<Rightarrow> TieredWatcher \<Rightarrow> watchLoopState \<Rightarrow> watchLoopState" where
  "onEvent t event tw st =
     (if filePattern tw \<noteq> [] \<and> filepathExt (Name event) \<noteq> filePattern tw then st
      else st\<lparr>lastPath := Name event, debounceTimer := Some (t + debounceDelay, event)\<rparr>)"

text \<open>The loop over a trace of events with their arrival instants, in arrival order.\<close>

fun watchLoop ::
  "(time \<Rightarrow> string \<Rightarrow> (time \<times> int) option) \<Rightarrow> (time \<times> FsEvent) list \<Rightarrow>
   watchLoopState \<times> TieredWatcher \<Rightarrow> watchLoopState \<times> TieredWatcher" where
  "watchLoop stat [] s = s"
| "watchLoop stat ((t, event) # rest) s =
     (let s1 = advance stat t s
      in watchLoop stat rest (onEvent t event (snd s1) (fst s1), snd s1))"

text \<open>
  A burst: every event arrives less than the debounce delay after the one before it, and
  every event has the watched extension.
\<close>

fun burst :: "(time \<times> FsEvent) list \<Rightarrow> bool" where
  "burst [] = True"
| "burst [x] = True"
| "burst (x # y # rest) = (fst x \<le> fst y \<and> fst y < fst x + debounceDelay \<and> burst (y # rest))"

definition accepted :: "TieredWatcher \<Rightarrow> FsEvent \<Rightarrow> bool" where
  "accepted tw event = (filePattern tw = [] \<or> filepathExt (Name event) = filePattern tw)"


section \<open>Status classifiers (package workspace, \<open>agent_session.go\<close>)\<close>

text \<open>
  Modelled from the spec: the declaration of \<open>WorktreeStatus\<close> is not among the
  sources; the spec gives the closed enumeration Active, Thinking, Waiting, Done,
  Unknown.  \<open>StatusUnknown\<close> stands for the value the code writes as the literal \<open>0\<close>
  next to \<open>found = false\<close>.
\<close>

datatype WorktreeStatus =
  StatusUnknown | StatusActive | StatusThinking | StatusWaiting | StatusDone

definition claudeActivityThreshold :: int where
  "claudeActivityThreshold = 5 * second"

definition sessionActivityThreshold :: int where
  "sessionActivityThreshold = 30 * second"

definition subagentMaxStaleness :: int where
  "subagentMaxStaleness = 2 * minute"

subsection \<open>Files, directories and decoded lines\<close>

text \<open>
  A decoded JSON value (\<open>any\<close> after \<open>json.Unmarshal\<close>); an object is the list of its
  members, looked up with \<open>map_of\<close>.
\<close>

datatype json =
  JNull | JBool bool | JNum int | JStr string | JArr "json list" | JObj "(string \<times> json) list"

text \<open>
  A directory entry: its name, \<open>IsDir()\<close>, and the modification time that \<open>Info()\<close>
  reports (\<open>None\<close> when \<open>Info()\<close> fails), as \<open>UnixNano\<close>.
\<close>

record DirEntry =
  entryName :: string
  entryIsDir :: bool
  entryInfo :: "time option"

text \<open>
  What the classifiers read of the machine, frozen for the duration of one call:
  \<open>os.UserHomeDir\<close>, \<open>filepath.Abs\<close>, \<open>os.ReadDir\<close>, the modification time of
  \<open>os.Stat\<close>, and the content of a file.  \<open>tailLines p\<close> is the list of lines that
  \<open>readTailLines p sessionStatusTailBytes\<close> returns, each line given by what
  \<open>json.Unmarshal\<close> makes of it after \<open>strings.TrimSpace\<close>: \<open>None\<close> for an empty
  line or a line that is not JSON, otherwise the decoded value.  \<open>scanLines p\<close> is the
  same for the lines a \<open>bufio.Scanner\<close> yields from the start of the file.  \<open>None\<close>
  for a path is an error of the call.
\<close>

record FileSystem =
  userHomeDir :: "string option"
  absPath :: "string \<Rightarrow> string option"
  readDir :: "string \<Rightarrow> DirEntry list option"
  statModTime :: "string \<Rightarrow> time option"
  tailLines :: "string \<Rightarrow> json option list option"
  scanLines :: "string \<Rightarrow> json option list option"

definition hasSuffix :: "string \<Rightarrow> string \<Rightarrow> bool" where
  "hasSuffix s suffix =
     (length suffix \<le> length s \<and> drop (length s - length suffix) s = suffix)"

definition hasPrefix :: "string \<Rightarrow> string \<Rightarrow> bool" where
  "hasPrefix s prefix = (take (length prefix) s = prefix)"

definition trimSuffix :: "string \<Rightarrow> string \<Rightarrow> string" where
  "trimSuffix s suffix = (if hasSuffix s suffix then take (length s - length suffix) s else s)"

definition trimPrefix :: "string \<Rightarrow> string \<Rightarrow> string" where
  "trimPrefix s prefix = (if hasPrefix s prefix then drop (length prefix) s else s)"

text \<open>
  \<open>filepath.Join\<close> and \<open>filepath.Base\<close> on clean slash-separated paths: joining puts
  one slash between the elements, the base is what follows the last slash.
\<close>

definition joinPath :: "string \<Rightarrow> string \<Rightarrow> string" where
  "joinPath dir name = dir @ ''/'' @ name"

definition filepathBase :: "string \<Rightarrow> string" where
  "filepathBase path = rev (takeWhile (\<lambda>c. c \<noteq> CHR ''/'') (rev path))"

text \<open>
  \<open>strings.TrimSpace(text) == ""\<close> on ASCII text: every character is a tab, a line
  feed, a vertical tab, a form feed, a carriage return or a space.
\<close>

definition isSpace :: "char \<Rightarrow> bool" where
  "isSpace c = (c \<in> set [CHR 0x09, CHR 0x0A, CHR 0x0B, CHR 0x0C, CHR 0x0D, CHR '' ''])"

definition blankText :: "string \<Rightarrow> bool" where
  "blankText s = list_all isSpace s"

definition isFileRecentlyModified :: "FileSystem \<Rightarrow> time \<Rightarrow> string \<Rightarrow> int \<Rightarrow> bool" where
  "isFileRecentlyModified fs now path threshold =
     (case statModTime fs path of
        None \<Rightarrow> False
      | Some mt \<Rightarrow> now - mt < threshold)"

subsection \<open>The principal format\<close>

text \<open>\<open>lo <= r && r <= hi\<close> on characters, compared by their codes.\<close>

definition inRange :: "char \<Rightarrow> char \<Rightarrow> char \<Rightarrow> bool" where
  "inRange lo hi r = ((of_char lo :: nat) \<le> of_char r \<and> (of_char r :: nat) \<le> of_char hi)"

definition claudeProjectDirName :: "string \<Rightarrow> string" where
  "claudeProjectDirName absP =
     map (\<lambda>r. if inRange (CHR ''a'') (CHR ''z'') r \<or> inRange (CHR ''A'') (CHR ''Z'') r \<or>
                 inRange (CHR ''0'') (CHR ''9'') r \<or> r = CHR ''-''
              then r else CHR ''-'') absP"

text \<open>One iteration of the loop of \<open>isPlaceholderAssistant\<close>: \<open>False\<close> is \<open>return false\<close>.\<close>

definition placeholderBlock :: "json \<Rightarrow> bool" where
  "placeholderBlock block =
     (case block of
        JObj b \<Rightarrow>
          (case map_of b ''type'' of
             Some (JStr blockType) \<Rightarrow>
               blockType = ''text'' \<and>
               (case map_of b ''text'' of Some (JStr text) \<Rightarrow> blankText text | _ \<Rightarrow> True)
           | _ \<Rightarrow> False)
      | _ \<Rightarrow> False)"

definition isPlaceholderAssistant :: "(string \<times> json) list \<Rightarrow> bool" where
  "isPlaceholderAssistant entry =
     (case map_of entry ''message'' of
        Some (JObj message) \<Rightarrow>
          (case map_of message ''content'' of
             Some (JArr content) \<Rightarrow> list_all placeholderBlock content
           | _ \<Rightarrow> False)
      | _ \<Rightarrow> False)"

definition toolUseBlock :: "json \<Rightarrow> bool" where
  "toolUseBlock block =
     (case block of
        JObj b \<Rightarrow> map_of b ''type'' = Some (JStr ''tool_use'')
      | _ \<Rightarrow> False)"

definition hasToolUse :: "(string \<times> json) list \<Rightarrow> bool" where
  "hasToolUse entry =
     (case map_of entry ''message'' of
        Some (JObj message) \<Rightarrow>
          (case map_of message ''content'' of
             Some (JArr content) \<Rightarrow> list_ex toolUseBlock content
           | _ \<Rightarrow> False)
      | _ \<Rightarrow> False)"

text \<open>
  What one line decides in the backward loop of \<open>getClaudeSessionStatus\<close>: \<open>None\<close> is
  \<open>continue\<close>.
\<close>

definition claudeLine :: "json option \<Rightarrow> WorktreeStatus option" where
  "claudeLine line =
     (case line of
        Some (JObj msg) \<Rightarrow>
          (case map_of msg ''type'' of
             Some (JStr msgType) \<Rightarrow>
               if msgType = ''user'' then Some StatusActive
               else if msgType = ''assistant'' then
                 (if isPlaceholderAssistant msg then Some StatusThinking
                  else if hasToolUse msg then Some StatusWaiting
                  else Some StatusDone)
               else None
           | _ \<Rightarrow> None)
      | _ \<Rightarrow> None)"

text \<open>The backward loop; the argument is the list of lines from the last to the first.\<close>

fun claudeScan :: "json option list \<Rightarrow> WorktreeStatus \<times> bool" where
  "claudeScan [] = (StatusUnknown, False)"
| "claudeScan (line # earlier) =
     (case claudeLine line of
        Some status \<Rightarrow> (status, True)
      | None \<Rightarrow> claudeScan earlier)"

definition getClaudeSessionStatus :: "FileSystem \<Rightarrow> string \<Rightarrow> WorktreeStatus \<times> bool" where
  "getClaudeSessionStatus fs path =
     (case tailLines fs path of
        None \<Rightarrow> (StatusUnknown, False)
      | Some lines \<Rightarrow> claudeScan (rev lines))"

text \<open>
  The loop of \<open>subagentStatus\<close> that finds the most recently modified \<open>.jsonl\<close> file;
  the accumulator is \<open>(mostRecentPath, mostRecentMtime)\<close>, initially \<open>("", 0)\<close>.
\<close>

fun mostRecentJSONL :: "string \<Rightarrow> DirEntry list \<Rightarrow> string \<times> int \<Rightarrow> string \<times> int" where
  "mostRecentJSONL dir [] acc = acc"
| "mostRecentJSONL dir (e # es) acc =
     (if entryIsDir e \<or> \<not> hasSuffix (entryName e) ''.jsonl'' then mostRecentJSONL dir es acc
      else
        (case entryInfo e of
           None \<Rightarrow> mostRecentJSONL dir es acc
         | Some mt \<Rightarrow>
             if mt > snd acc then mostRecentJSONL dir es (joinPath dir (entryName e), mt)
             else mostRecentJSONL dir es acc))"

definition subagentStatus ::
  "FileSystem \<Rightarrow> time \<Rightarrow> string \<Rightarrow> int \<Rightarrow> WorktreeStatus \<times> bool" where
  "subagentStatus fs now dir mtimeThreshold =
     (case readDir fs dir of
        None \<Rightarrow> (StatusUnknown, False)
      | Some entries \<Rightarrow>
          let mostRecentPath = fst (mostRecentJSONL dir entries ([], 0))
          in if mostRecentPath = [] then (StatusUnknown, False)
             else if \<not> isFileRecentlyModified fs now mostRecentPath subagentMaxStaleness
             then (StatusUnknown, False)
             else
               (case getClaudeSessionStatus fs mostRecentPath of
                  (status, ok) \<Rightarrow>
                    if \<not> ok then (StatusUnknown, False)
                    else
                      let freshMtime = isFileRecentlyModified fs now mostRecentPath mtimeThreshold
                      in (case status of
                            StatusActive \<Rightarrow>
                              if freshMtime then (StatusActive, True) else (StatusThinking, True)
                          | StatusThinking \<Rightarrow> (StatusThinking, True)
                          | StatusWaiting \<Rightarrow>
                              if freshMtime then (StatusActive, True) else (StatusUnknown, False)
                          | StatusDone \<Rightarrow>
                              if freshMtime then (StatusActive, True) else (StatusUnknown, False)
                          | StatusUnknown \<Rightarrow> (StatusUnknown, False))))"

text \<open>
  \<open>findRecentJSONLFiles\<close>: the \<open>.jsonl\<close> files of a directory, most recently modified
  first.  \<open>sort.Slice\<close> is not stable, so the code leaves the order of files of equal
  modification time open; the model keeps them in listing order (\<open>insertByMtime\<close>
  inserts behind the files that are at least as recent).
\<close>

fun insertByMtime :: "string \<times> int \<Rightarrow> (string \<times> int) list \<Rightarrow> (string \<times> int) list" where
  "insertByMtime f [] = [f]"
| "insertByMtime f (g # gs) =
     (if snd f > snd g then f # g # gs else g # insertByMtime f gs)"

fun collectJSONL :: "string \<Rightarrow> string \<Rightarrow> DirEntry list \<Rightarrow> (string \<times> int) list" where
  "collectJSONL dir excludePrefix [] = []"
| "collectJSONL dir excludePrefix (e # es) =
     (if entryIsDir e \<or> \<not> hasSuffix (entryName e) ''.jsonl''
      then collectJSONL dir excludePrefix es
      else if excludePrefix \<noteq> [] \<and> hasPrefix (entryName e) excludePrefix
      then collectJSONL dir excludePrefix es
      else
        (case entryInfo e of
           None \<Rightarrow> collectJSONL dir excludePrefix es
         | Some mt \<Rightarrow> (joinPath dir (entryName e), mt) # collectJSONL dir excludePrefix es))"

definition findRecentJSONLFiles :: "FileSystem \<Rightarrow> string \<Rightarrow> string \<Rightarrow> string list option" where
  "findRecentJSONLFiles fs dir excludePrefix =
     (case readDir fs dir of
        None \<Rightarrow> None
      | Some entries \<Rightarrow>
          Some (map fst (foldl (\<lambda>files f. insertByMtime f files) []
                           (collectJSONL dir excludePrefix entries))))"

text \<open>The loop of \<open>detectClaudeSessionStatus\<close> over the candidate files.\<close>

fun claudeCandidates ::
  "FileSystem \<Rightarrow> time \<Rightarrow> string \<Rightarrow> string list \<Rightarrow> WorktreeStatus \<times> bool" where
  "claudeCandidates fs now projectDir [] = (StatusUnknown, False)"
| "claudeCandidates fs now projectDir (sessionFile # rest) =
     (case getClaudeSessionStatus fs sessionFile of
        (status, ok) \<Rightarrow>
          if \<not> ok then claudeCandidates fs now projectDir rest
          else if status = StatusActive then
            (if isFileRecentlyModified fs now sessionFile claudeActivityThreshold
             then (StatusActive, True) else (StatusThinking, True))
          else if status = StatusThinking then (StatusThinking, True)
          else if isFileRecentlyModified fs now sessionFile claudeActivityThreshold
          then (StatusActive, True)
          else
            let sessionUUID = trimSuffix (filepathBase sessionFile) ''.jsonl'';
                subagentsDir = joinPath (joinPath projectDir sessionUUID) ''subagents''
            in (case subagentStatus fs now subagentsDir claudeActivityThreshold of
                  (subStatus, subOK) \<Rightarrow>
                    if subOK then (subStatus, True) else (status, True)))"

definition claudeProjectDir :: "string \<Rightarrow> string \<Rightarrow> string" where
  "claudeProjectDir home absP =
     joinPath (joinPath (joinPath home ''.claude'') ''projects'') (claudeProjectDirName absP)"

definition detectClaudeSessionStatus ::
  "FileSystem \<Rightarrow> time \<Rightarrow> string \<Rightarrow> WorktreeStatus \<times> bool" where
  "detectClaudeSessionStatus fs now worktreePath =
     (case userHomeDir fs of
        None \<Rightarrow> (StatusUnknown, False)
      | Some home \<Rightarrow>
          (case absPath fs worktreePath of
             None \<Rightarrow> (StatusUnknown, False)
           | Some absP \<Rightarrow>
               let projectDir = claudeProjectDir home absP
               in (case findRecentJSONLFiles fs projectDir ''agent-'' of
                     None \<Rightarrow> (StatusUnknown, False)
                   | Some sessionFiles \<Rightarrow>
                       if sessionFiles = [] then (StatusUnknown, False)
                       else claudeCandidates fs now projectDir sessionFiles)))"

subsection \<open>The formats without sub-agents\<close>

text \<open>
  Decoding into a Go struct with string fields: a member that is absent or \<open>null\<close>
  leaves the field empty, a string sets it, any other value is a decoding error
  (\<open>None\<close>).  Member names are matched exactly.
\<close>

definition strField :: "(string \<times> json) list \<Rightarrow> string \<Rightarrow> string option" where
  "strField obj key =
     (case map_of obj key of
        None \<Rightarrow> Some []
      | Some JNull \<Rightarrow> Some []
      | Some (JStr s) \<Rightarrow> Some s
      | Some _ \<Rightarrow> None)"

text \<open>
  One line of \<open>getPiLastMessageStatus\<close>: the role that the line assigns to
  \<open>lastRole\<close>, if it assigns one.  The function reads the same last two megabytes
  with a \<open>bufio.Scanner\<close>, forwards; the model gives it the decoded lines of
  \<open>tailLines\<close>, first to last.
\<close>

definition piLine :: "json option \<Rightarrow> string option" where
  "piLine line =
     (case line of
        Some (JObj entry) \<Rightarrow>
          (case strField entry ''type'' of
             None \<Rightarrow> None
           | Some entryType \<Rightarrow>
               (case map_of entry ''message'' of
                  Some (JObj message) \<Rightarrow>
                    (case strField message ''role'' of
                       None \<Rightarrow> None
                     | Some role \<Rightarrow>
                         if entryType = ''message'' \<and> (role = ''user'' \<or> role = ''assistant'')
                         then Some role else None)
                | _ \<Rightarrow> None))
      | _ \<Rightarrow> None)"

fun piScan :: "json option list \<Rightarrow> string \<Rightarrow> string" where
  "piScan [] lastRole = lastRole"
| "piScan (line # later) lastRole =
     (case piLine line of
        Some role \<Rightarrow> piScan later role
      | None \<Rightarrow> piScan later lastRole)"

definition getPiLastMessageStatus :: "FileSystem \<Rightarrow> string \<Rightarrow> WorktreeStatus \<times> bool" where
  "getPiLastMessageStatus fs path =
     (case tailLines fs path of
        None \<Rightarrow> (StatusUnknown, False)
      | Some lines \<Rightarrow>
          let lastRole = piScan lines []
          in if lastRole = ''user'' then (StatusActive, True)
             else if lastRole = ''assistant'' then (StatusWaiting, True)
             else (StatusUnknown, False))"

definition piProjectDir :: "string \<Rightarrow> string \<Rightarrow> string" where
  "piProjectDir home absP =
     (let path = trimPrefix absP ''/'';
          encoded = map (\<lambda>c. if c = CHR ''/'' then CHR ''-'' else c) path
      in joinPath (joinPath (joinPath (joinPath home ''.pi'') ''agent'') ''sessions'')
           (''--'' @ encoded @ ''--''))"

definition detectPiSessionStatus ::
  "FileSystem \<Rightarrow> time \<Rightarrow> string \<Rightarrow> WorktreeStatus \<times> bool" where
  "detectPiSessionStatus fs now worktreePath =
     (case userHomeDir fs of
        None \<Rightarrow> (StatusUnknown, False)
      | Some home \<Rightarrow>
          (case absPath fs worktreePath of
             None \<Rightarrow> (StatusUnknown, False)
           | Some absP \<Rightarrow>
               (case findRecentJSONLFiles fs (piProjectDir home absP) [] of
                  None \<Rightarrow> (StatusUnknown, False)
                | Some [] \<Rightarrow> (StatusUnknown, False)
                | Some (sessionFile # others) \<Rightarrow>
                    if isFileRecentlyModified fs now sessionFile sessionActivityThreshold
                    then (StatusActive, True)
                    else getPiLastMessageStatus fs sessionFile)))"

text \<open>One line of the backward loop of \<open>getCodexLastMessageStatus\<close>.\<close>

definition codexLine :: "json option \<Rightarrow> WorktreeStatus option" where
  "codexLine line =
     (case line of
        Some (JObj rcd) \<Rightarrow>
          (case strField rcd ''type'' of
             None \<Rightarrow> None
           | Some recordType \<Rightarrow>
               (case map_of rcd ''payload'' of
                  Some (JObj payload) \<Rightarrow>
                    (case (strField payload ''type'', strField payload ''role'') of
                       (Some payloadType, Some role) \<Rightarrow>
                         if recordType = ''response_item'' \<and> payloadType = ''message'' then
                           (if role = ''assistant'' then Some StatusWaiting
                            else if role = ''user'' then Some StatusActive
                            else None)
                         else None
                     | _ \<Rightarrow> None)
                | _ \<Rightarrow> None))
      | _ \<Rightarrow> None)"

fun codexScan :: "json option list \<Rightarrow> WorktreeStatus \<times> bool" where
  "codexScan [] = (StatusUnknown, False)"
| "codexScan (line # earlier) =
     (case codexLine line of
        Some status \<Rightarrow> (status, True)
      | None \<Rightarrow> codexScan earlier)"

definition getCodexLastMessageStatus :: "FileSystem \<Rightarrow> string \<Rightarrow> WorktreeStatus \<times> bool" where
  "getCodexLastMessageStatus fs path =
     (case tailLines fs path of
        None \<Rightarrow> (StatusUnknown, False)
      | Some lines \<Rightarrow> codexScan (rev lines))"

text \<open>
  \<open>detectCodexSessionStatus\<close>.  The locator \<open>findCodexSessionForPath\<close> (a directory
  walk behind two caches) is the argument \<open>findCodex\<close>: it maps the sessions directory
  and the absolute path to the session file it returns, \<open>""\<close> when it finds none (its
  error is always \<open>nil\<close>).
\<close>

definition detectCodexSessionStatus ::
  "FileSystem \<Rightarrow> time \<Rightarrow> (string \<Rightarrow> string \<Rightarrow> string) \<Rightarrow> string \<Rightarrow> WorktreeStatus \<times> bool" where
  "detectCodexSessionStatus fs now findCodex worktreePath =
     (case userHomeDir fs of
        None \<Rightarrow> (StatusUnknown, False)
      | Some home \<Rightarrow>
          (case absPath fs worktreePath of
             None \<Rightarrow> (StatusUnknown, False)
           | Some absP \<Rightarrow>
               let sessionsDir = joinPath (joinPath home ''.codex'') ''sessions'';
                   sessionFile = findCodex sessionsDir absP
               in if sessionFile = [] then (StatusUnknown, False)
                  else if isFileRecentlyModified fs now sessionFile sessionActivityThreshold
                  then (StatusActive, True)
                  else getCodexLastMessageStatus fs sessionFile))"


subsection \<open>The bounded metadata cache of the Codex locator\<close>

definition codexCwdCacheMaxEntries :: nat where
  "codexCwdCacheMaxEntries = 2048"

record codexSessionCwdCacheEntry =
  cwd :: string
  modTime :: time
  sizeBytes :: int
  lastAccess :: time

text \<open>What \<open>os.FileInfo\<close> says of the live file: \<open>ModTime()\<close> and \<open>Size()\<close>.\<close>

record FileInfo =
  infoModTime :: time
  infoSize :: int

text \<open>
  \<open>codexSessionCwdCache.entries\<close>, a map from path to entry, as an association list
  without repeated keys; \<open>map_of\<close> is the lookup and the length is \<open>len\<close>.  The mutex
  is held throughout each of the three functions, so each is one step on the cache.
\<close>

type_synonym cwdCache = "(string \<times> codexSessionCwdCacheEntry) list"

text \<open>
  \<open>cachedCodexSessionCWD\<close> returns the pair \<open>(cwd, ok)\<close> and the cache it leaves;
  \<open>now\<close> is the clock read on a hit.
\<close>

definition cachedCodexSessionCWD ::
  "time \<Rightarrow> string \<Rightarrow> FileInfo \<Rightarrow> cwdCache \<Rightarrow> (string \<times> bool) \<times> cwdCache" where
  "cachedCodexSessionCWD now path info c =
     (case map_of c path of
        Some entry \<Rightarrow>
          if sizeBytes entry = infoSize info \<and> modTime entry = infoModTime info
          then ((cwd entry, True), AList.update path (entry\<lparr>lastAccess := now\<rparr>) c)
          else (([], False), AList.delete path c)
      | None \<Rightarrow> (([], False), c))"

text \<open>
  \<open>pruneCodexSessionCWDCacheLocked\<close> deletes the least recently accessed entries
  beyond the maximum.  The code sorts with \<open>sort.Slice\<close> over the map's iteration
  order, which leaves the order of entries of equal \<open>lastAccess\<close> open; the model sorts
  stably over the list's order.
\<close>

definition pruneCodexSessionCWDCacheLocked :: "cwdCache \<Rightarrow> cwdCache" where
  "pruneCodexSessionCWDCacheLocked c =
     (if length c \<le> codexCwdCacheMaxEntries then c
      else
        let entries = sort_key (\<lambda>e. lastAccess (snd e)) c;
            excess = length entries - codexCwdCacheMaxEntries
        in foldl (\<lambda>m e. AList.delete (fst e) m) c (take excess entries))"

definition setCodexSessionCWDCache ::
  "time \<Rightarrow> string \<Rightarrow> FileInfo \<Rightarrow> string \<Rightarrow> cwdCache \<Rightarrow> cwdCache" where
  "setCodexSessionCWDCache now path info w c =
     pruneCodexSessionCWDCacheLocked
       (AList.update path
          \<lparr>cwd = w, modTime = infoModTime info, sizeBytes = infoSize info, lastAccess = now\<rparr> c)"

text \<open>
  One line of the scan of \<open>getCodexSessionCWD\<close>: the working directory of a
  \<open>session_meta\<close> record that names one.
\<close>

definition metaLine :: "json option \<Rightarrow> string option" where
  "metaLine line =
     (case line of
        Some (JObj rcd) \<Rightarrow>
          (case strField rcd ''type'' of
             None \<Rightarrow> None
           | Some recordType \<Rightarrow>
               (case map_of rcd ''payload'' of
                  Some (JObj payload) \<Rightarrow>
                    (case strField payload ''cwd'' of
                       Some w \<Rightarrow> if recordType = ''session_meta'' \<and> w \<noteq> [] then Some w else None
                     | None \<Rightarrow> None)
                | _ \<Rightarrow> None))
      | _ \<Rightarrow> None)"

fun firstMeta :: "json option list \<Rightarrow> string option" where
  "firstMeta [] = None"
| "firstMeta (line # later) =
     (case metaLine line of
        Some w \<Rightarrow> Some w
      | None \<Rightarrow> firstMeta later)"

datatype error = OpenError

text \<open>
  \<open>getCodexSessionCWD\<close>: the cached value on a hit; otherwise the file is opened and
  scanned from its start, and a working directory found there is stored in the cache.
\<close>

definition getCodexSessionCWD ::
  "FileSystem \<Rightarrow> time \<Rightarrow> string \<Rightarrow> FileInfo \<Rightarrow> cwdCache \<Rightarrow> (error + string) \<times> cwdCache" where
  "getCodexSessionCWD fs now path info c =
     (case cachedCodexSessionCWD now path info c of
        ((cached, ok), c1) \<Rightarrow>
          if ok then (Inr cached, c1)
          else
            (case scanLines fs path of
               None \<Rightarrow> (Inl OpenError, c1)
             | Some lines \<Rightarrow>
                 (case firstMeta lines of
                    Some w \<Rightarrow> (Inr w, setCodexSessionCWDCache now path info w c1)
                  | None \<Rightarrow> (Inr [], c1))))"


subsection \<open>Invariant of the hot list\<close>

text \<open>
  The hot list is well formed at the instant \<open>T\<close>: no ID twice, at most
  \<open>MaxHotSessions\<close> IDs, every ID registered and none promoted later than \<open>T\<close>.
\<close>

definition hotInv :: "TieredWatcher \<Rightarrow> time \<Rightarrow> bool" where
  "hotInv tw T =
     (distinct (hotIDs tw) \<and> length (hotIDs tw) \<le> MaxHotSessions \<and>
      (\<forall>h\<in>set (hotIDs tw). \<exists>i. sessions tw h = Some i \<and> LastHot i \<le> T))"

subsection \<open>Example watchers\<close>

text \<open>
  Sessions \<open>/r/<name>.jsonl\<close> in one directory; a clock that advances by one
  nanosecond per reading; \<open>watcher.Add\<close> always succeeds.
\<close>

definition exExtract :: "string \<Rightarrow> string" where
  "exExtract path = trimSuffix (filepathBase path) ''.jsonl''"

definition exDir :: "string \<Rightarrow> string" where
  "exDir p = ''/r''"

definition exInfo :: "string \<Rightarrow> time \<Rightarrow> SessionInfo" where
  "exInfo name mt =
     \<lparr>ID = name, Path = ''/r/'' @ name @ ''.jsonl'', ModTime = mt, LastHot = 0, FileSize = 10\<rparr>"

definition exIos :: "time \<Rightarrow> nat \<Rightarrow> time \<times> bool" where
  "exIos t i = (t + int i, True)"

definition exIo :: "time \<Rightarrow> promote_io" where
  "exIo t = \<lparr>now_hot = t, now_scan = t + 1, add_ok = True\<rparr>"

definition exBatch3 :: TieredWatcher where
  "exBatch3 =
     RegisterSessions exDir (exIos 100) [''c'', ''b'', ''a'']
       [exInfo ''a'' 1, exInfo ''b'' 2, exInfo ''c'' 3] (New ''/r'' ''.jsonl'' exExtract)"

definition exFull :: TieredWatcher where
  "exFull = RegisterSession (Some (4, 10)) ''d'' ''/r/d.jsonl'' exBatch3"

definition exFive :: TieredWatcher where
  "exFive =
     PromoteToHot exDir (exIo 250) ''s5'' (PromoteToHot exDir (exIo 240) ''s4''
       (PromoteToHot exDir (exIo 230) ''s3'' (PromoteToHot exDir (exIo 220) ''s2''
         (PromoteToHot exDir (exIo 210) ''s1''
           (RegisterSessions exDir (exIos 100) [''s5'', ''s4'', ''s3'', ''s2'', ''s1'']
              [exInfo ''s1'' 1, exInfo ''s2'' 2, exInfo ''s3'' 3, exInfo ''s4'' 4, exInfo ''s5'' 5]
              (New ''/r'' ''.jsonl'' exExtract))))))"

definition exBatch4 :: TieredWatcher where
  "exBatch4 =
     RegisterSessions exDir (exIos 300) [''d'', ''c'', ''b'', ''a''] [exInfo ''d'' 4] exBatch3"

definition exManager :: Manager where
  "exManager =
     \<lparr>watchers = [''claude'' \<mapsto> exFull, ''codex'' \<mapsto> exBatch3], mevents = [], mclosed = False\<rparr>"


subsection \<open>Example trace for the notification consumer\<close>

text \<open>
  Two writes, to \<open>/r/a.jsonl\<close> and ten milliseconds later to \<open>/r/b.jsonl\<close>, received by
  the watcher \<open>exBatch3\<close> (sessions \<open>a\<close>, \<open>b\<close>, \<open>c\<close> hot, extension \<open>.jsonl\<close>);
  \<open>exThreeEvents\<close> is a burst on one path that ends in a remove.
\<close>

definition exLoop0 :: watchLoopState where
  "exLoop0 = \<lparr>lastPath = [], debounceTimer = None, loopClosed = False\<rparr>"

definition exStat :: "time \<Rightarrow> string \<Rightarrow> (time \<times> int) option" where
  "exStat t p = Some (t, 20)"

definition exTwoPaths :: "(time \<times> FsEvent) list" where
  "exTwoPaths =
     [(0, \<lparr>Name = ''/r/a.jsonl'', Op = Write\<rparr>),
      (10 * millisecond, \<lparr>Name = ''/r/b.jsonl'', Op = Write\<rparr>)]"

definition exOnePath :: "(time \<times> FsEvent) list" where
  "exOnePath =
     [(0, \<lparr>Name = ''/r/a.jsonl'', Op = Create\<rparr>),
      (10 * millisecond, \<lparr>Name = ''/r/a.jsonl'', Op = Write\<rparr>),
      (20 * millisecond, \<lparr>Name = ''/r/a.jsonl'', Op = Write\<rparr>)]"


subsection \<open>Example cache\<close>

text \<open>
  A cache that holds, for \<open>/s/r1.jsonl\<close>, the working directory \<open>/old\<close> computed when
  the file had modification time 100 and size 50; the file now starts with a
  \<open>session_meta\<close> record naming \<open>/new\<close>.
\<close>

definition exEntry :: codexSessionCwdCacheEntry where
  "exEntry = \<lparr>cwd = ''/old'', modTime = 100, sizeBytes = 50, lastAccess = 7\<rparr>"

definition exCache :: cwdCache where
  "exCache = [(''/s/r1.jsonl'', exEntry),
              (''/s/r2.jsonl'', \<lparr>cwd = ''/w2'', modTime = 10, sizeBytes = 5, lastAccess = 8\<rparr>)]"

definition exMetaFs :: FileSystem where
  "exMetaFs =
     \<lparr>userHomeDir = Some ''/h'', absPath = Some, readDir = (\<lambda>d. None),
      statModTime = (\<lambda>p. None), tailLines = (\<lambda>p. None),
      scanLines = (\<lambda>p. if p = ''/s/r1.jsonl''
         then Some [None,
                    Some (JObj [(''type'', JStr ''session_meta''),
                                (''payload'', JObj [(''cwd'', JStr ''/new'')])])]
         else None)\<rparr>"


subsection \<open>Example session files\<close>

text \<open>
  The working directory \<open>/w\<close> of the user with home \<open>/h\<close>, at the instant
  \<open>exNow\<close> (1000 s).  \<open>mkFs\<close> builds the file system from the directory listings, the
  modification times and the decoded tails of its files.
\<close>

definition exNow :: time where
  "exNow = 1000 * second"

definition mkFs ::
  "(string \<times> DirEntry list) list \<Rightarrow> (string \<times> time) list \<Rightarrow>
   (string \<times> json option list) list \<Rightarrow> FileSystem" where
  "mkFs dirs mtimes tails =
     \<lparr>userHomeDir = Some ''/h'', absPath = Some, readDir = map_of dirs,
      statModTime = map_of mtimes, tailLines = map_of tails, scanLines = (\<lambda>p. None)\<rparr>"

definition exFile :: "string \<Rightarrow> time \<Rightarrow> DirEntry" where
  "exFile name mt = \<lparr>entryName = name, entryIsDir = False, entryInfo = Some mt\<rparr>"

definition userMsg :: "(string \<times> json) list" where
  "userMsg = [(''type'', JStr ''user'')]"

definition asstMsg :: "json list \<Rightarrow> (string \<times> json) list" where
  "asstMsg content =
     [(''type'', JStr ''assistant''), (''message'', JObj [(''content'', JArr content)])]"

definition textBlockOf :: "string \<Rightarrow> json" where
  "textBlockOf t = JObj [(''type'', JStr ''text''), (''text'', JStr t)]"

definition toolBlock :: json where
  "toolBlock = JObj [(''type'', JStr ''tool_use''), (''name'', JStr ''Bash'')]"

definition snapshotLine :: "json option" where
  "snapshotLine = Some (JObj [(''type'', JStr ''file-history-snapshot'')])"

definition exProj :: string where
  "exProj = ''/h/.claude/projects/-w''"

definition exS1 :: string where
  "exS1 = ''/h/.claude/projects/-w/s1.jsonl''"

definition exS2 :: string where
  "exS2 = ''/h/.claude/projects/-w/s2.jsonl''"

definition exSub :: string where
  "exSub = ''/h/.claude/projects/-w/s1/subagents''"

definition exAgent :: string where
  "exAgent = ''/h/.claude/projects/-w/s1/subagents/agent-1.jsonl''"

text \<open>One session file \<open>s1.jsonl\<close>, modified \<open>age\<close> before \<open>exNow\<close>, with the given tail.\<close>

definition exOneFile :: "int \<Rightarrow> json option list \<Rightarrow> FileSystem" where
  "exOneFile age tail =
     mkFs [(exProj, [exFile ''s1.jsonl'' (exNow - age)])] [(exS1, exNow - age)] [(exS1, tail)]"

text \<open>
  The session \<open>s1\<close>, modified a minute ago and ending in a text-only assistant message,
  with one sub-agent file modified \<open>age\<close> before \<open>exNow\<close> with the given tail.
\<close>

definition exWithSub :: "int \<Rightarrow> json option list \<Rightarrow> FileSystem" where
  "exWithSub age tail =
     mkFs [(exProj, [exFile ''s1.jsonl'' (exNow - 60 * second)]),
           (exSub, [exFile ''agent-1.jsonl'' (exNow - age)])]
          [(exS1, exNow - 60 * second), (exAgent, exNow - age)]
          [(exS1, [Some (JObj userMsg), Some (JObj (asstMsg [textBlockOf ''done'']))]),
           (exAgent, tail)]"

text \<open>
  Two session files: the newer \<open>s2.jsonl\<close> (90 s old) holds only a snapshot record, the
  older \<open>s1.jsonl\<close> (120 s old) ends in a text-only assistant message.
\<close>

definition exAbandoned :: FileSystem where
  "exAbandoned =
     mkFs [(exProj, [exFile ''s1.jsonl'' (exNow - 120 * second),
                     exFile ''s2.jsonl'' (exNow - 90 * second)])]
          [(exS1, exNow - 120 * second), (exS2, exNow - 90 * second)]
          [(exS1, [Some (JObj userMsg), Some (JObj (asstMsg [textBlockOf ''done'']))]),
           (exS2, [snapshotLine, None])]"

definition exPiDir :: string where
  "exPiDir = ''/h/.pi/agent/sessions/--w--''"

definition exPiNew :: string where
  "exPiNew = ''/h/.pi/agent/sessions/--w--/n.jsonl''"

definition exPiOld :: string where
  "exPiOld = ''/h/.pi/agent/sessions/--w--/o.jsonl''"

definition piMsg :: "string \<Rightarrow> json option" where
  "piMsg role = Some (JObj [(''type'', JStr ''message''), (''message'', JObj [(''role'', JStr role)])])"

text \<open>
  Two Pi session files: the newer \<open>n.jsonl\<close>, modified \<open>age\<close> before \<open>exNow\<close>, holds
  no message record; the older \<open>o.jsonl\<close> ends in an assistant message.
\<close>

definition exPi :: "int \<Rightarrow> FileSystem" where
  "exPi age =
     mkFs [(exPiDir, [exFile ''o.jsonl'' (exNow - 200 * second), exFile ''n.jsonl'' (exNow - age)])]
          [(exPiOld, exNow - 200 * second), (exPiNew, exNow - age)]
          [(exPiOld, [piMsg ''user'', piMsg ''assistant'']),
           (exPiNew, [Some (JObj [(''type'', JStr ''session'')]), None])]"

definition exCodexFile :: string where
  "exCodexFile = ''/h/.codex/sessions/2026/r.jsonl''"

definition exFindCodex :: "string \<Rightarrow> string \<Rightarrow> string" where
  "exFindCodex sessionsDir absP =
     (if sessionsDir = ''/h/.codex/sessions'' \<and> absP = ''/w'' then exCodexFile else [])"

definition exCodex :: "int \<Rightarrow> FileSystem" where
  "exCodex age = mkFs [] [(exCodexFile, exNow - age)] [(exCodexFile, [None])]"


subsection \<open>Terms of the claims about the classifiers\<close>

text \<open>
  The sub-session directory that \<open>detectClaudeSessionStatus\<close> inspects for a session
  file (its \<open>subagentsDir\<close>).
\<close>

definition subagentsDirOf :: "string \<Rightarrow> string \<Rightarrow> string" where
  "subagentsDirOf projectDir sessionFile =
     joinPath (joinPath projectDir (trimSuffix (filepathBase sessionFile) ''.jsonl'')) ''subagents''"

text \<open>
  A content list is text-only when every block is a text block and at least one of them
  has text that is not blank.
\<close>

definition isTextBlock :: "json \<Rightarrow> bool" where
  "isTextBlock block =
     (case block of JObj b \<Rightarrow> map_of b ''type'' = Some (JStr ''text'') | _ \<Rightarrow> False)"

definition hasVisibleText :: "json \<Rightarrow> bool" where
  "hasVisibleText block =
     (case block of
        JObj b \<Rightarrow> (case map_of b ''text'' of Some (JStr t) \<Rightarrow> \<not> blankText t | _ \<Rightarrow> False)
      | _ \<Rightarrow> False)"

definition textOnly :: "json list \<Rightarrow> bool" where
  "textOnly content = (list_all isTextBlock content \<and> list_ex hasVisibleText content)"

text \<open>
  An entry of type \<open>assistant\<close> whose \<open>message.content\<close> is the given list of blocks, and
  an entry of type \<open>user\<close>.
\<close>

definition assistantEntry :: "(string \<times> json) list \<Rightarrow> json list \<Rightarrow> bool" where
  "assistantEntry msg content =
     (map_of msg ''type'' = Some (JStr ''assistant'') \<and>
      (\<exists>message. map_of msg ''message'' = Some (JObj message) \<and>
                 map_of message ''content'' = Some (JArr content)))"

definition userEntry :: "(string \<times> json) list \<Rightarrow> bool" where
  "userEntry msg = (map_of msg ''type'' = Some (JStr ''user''))"

text \<open>
  The file's last entry with a recognized role is \<open>msg\<close>: it is a line of the tail and
  no line after it has a recognized role.
\<close>

definition lastRecognized :: "FileSystem \<Rightarrow> string \<Rightarrow> (string \<times> json) list \<Rightarrow> bool" where
  "lastRecognized fs path msg =
     (\<exists>before after. tailLines fs path = Some (before @ Some (JObj msg) # after) \<and>
                     list_all (\<lambda>l. claudeLine l = None) after)"


text \<open>
  The candidates of the principal format for a working directory are \<open>files\<close>, the
  files \<open>skipped\<close> before \<open>f\<close> yielding no status: \<open>f\<close> is the chosen candidate.
\<close>

definition claudeFiles :: "FileSystem \<Rightarrow> string \<Rightarrow> string \<Rightarrow> string list \<Rightarrow> bool" where
  "claudeFiles fs worktreePath projectDir files =
     (\<exists>home absP. userHomeDir fs = Some home \<and> absPath fs worktreePath = Some absP \<and>
                  projectDir = claudeProjectDir home absP \<and>
                  findRecentJSONLFiles fs projectDir ''agent-'' = Some files)"

definition chosen :: "FileSystem \<Rightarrow> string list \<Rightarrow> string \<Rightarrow> bool" where
  "chosen fs files f =
     (\<exists>skipped rest. files = skipped @ f # rest \<and>
                     list_all (\<lambda>g. \<not> snd (getClaudeSessionStatus fs g)) skipped)"


section \<open>Theorems on the tiered watcher\<close>

subsection \<open>The scan for the oldest hot session\<close>

lemma oldestScan_cases:
  "oldestScan ss xs i (oi, ot) = (r, rt) \<Longrightarrow>
   (r = oi \<and> rt = ot \<and> (\<forall>x\<in>set xs. \<forall>info. ss x = Some info \<longrightarrow> ot \<le> LastHot info)) \<or>
   (\<exists>k<length xs. r = i + k \<and> rt < ot \<and> (\<exists>info. ss (xs ! k) = Some info \<and> LastHot info = rt) \<and>
      (\<forall>x\<in>set xs. \<forall>info. ss x = Some info \<longrightarrow> rt \<le> LastHot info) \<and>
      (\<forall>j<k. \<forall>info. ss (xs ! j) = Some info \<longrightarrow> rt < LastHot info))"
proof (induction xs arbitrary: i oi ot)
  case Nil
  then show ?case by simp
next
  case (Cons x xs)
  show ?case
  proof (cases "ss x")
    case None
    with Cons.prems have "oldestScan ss xs (Suc i) (oi, ot) = (r, rt)" by simp
    from Cons.IH[OF this] show ?thesis
    proof
      assume "r = oi \<and> rt = ot \<and> (\<forall>x\<in>set xs. \<forall>info. ss x = Some info \<longrightarrow> ot \<le> LastHot info)"
      with None show ?thesis by auto
    next
      assume "\<exists>k<length xs. r = Suc i + k \<and> rt < ot \<and> (\<exists>info. ss (xs ! k) = Some info \<and> LastHot info = rt) \<and>
      (\<forall>x\<in>set xs. \<forall>info. ss x = Some info \<longrightarrow> rt \<le> LastHot info) \<and>
      (\<forall>j<k. \<forall>info. ss (xs ! j) = Some info \<longrightarrow> rt < LastHot info)"
      then obtain k where k: "k < length xs" "r = Suc i + k" "rt < ot" "\<exists>info. ss (xs ! k) = Some info \<and> LastHot info = rt"
        "\<forall>x\<in>set xs. \<forall>info. ss x = Some info \<longrightarrow> rt \<le> LastHot info"
        "\<forall>j<k. \<forall>info. ss (xs ! j) = Some info \<longrightarrow> rt < LastHot info" by blast
      have "\<forall>j<Suc k. \<forall>info. ss ((x # xs) ! j) = Some info \<longrightarrow> rt < LastHot info"
        using k(6) None by (auto simp: less_Suc_eq_0_disj)
      with k None have "Suc k < length (x # xs) \<and> r = i + Suc k \<and> rt < ot \<and> (\<exists>info. ss ((x # xs) ! Suc k) = Some info \<and> LastHot info = rt) \<and>
      (\<forall>y\<in>set (x # xs). \<forall>info. ss y = Some info \<longrightarrow> rt \<le> LastHot info) \<and>
      (\<forall>j<Suc k. \<forall>info. ss ((x # xs) ! j) = Some info \<longrightarrow> rt < LastHot info)" by auto
      then show ?thesis by blast
    qed
  next
    case (Some inf)
    show ?thesis
    proof (cases "LastHot inf < ot")
      case True
      with Some Cons.prems have "oldestScan ss xs (Suc i) (i, LastHot inf) = (r, rt)" by simp
      from Cons.IH[OF this] show ?thesis
      proof
        assume a: "r = i \<and> rt = LastHot inf \<and> (\<forall>x\<in>set xs. \<forall>info. ss x = Some info \<longrightarrow> LastHot inf \<le> LastHot info)"
        with Some True have "0 < length (x # xs) \<and> r = i + 0 \<and> rt < ot \<and> (\<exists>info. ss ((x # xs) ! 0) = Some info \<and> LastHot info = rt) \<and>
      (\<forall>y\<in>set (x # xs). \<forall>info. ss y = Some info \<longrightarrow> rt \<le> LastHot info) \<and>
      (\<forall>j<0. \<forall>info. ss ((x # xs) ! j) = Some info \<longrightarrow> rt < LastHot info)" by auto
        then show ?thesis by blast
      next
        assume "\<exists>k<length xs. r = Suc i + k \<and> rt < LastHot inf \<and> (\<exists>info. ss (xs ! k) = Some info \<and> LastHot info = rt) \<and>
      (\<forall>x\<in>set xs. \<forall>info. ss x = Some info \<longrightarrow> rt \<le> LastHot info) \<and>
      (\<forall>j<k. \<forall>info. ss (xs ! j) = Some info \<longrightarrow> rt < LastHot info)"
        then obtain k where k: "k < length xs" "r = Suc i + k" "rt < LastHot inf" "\<exists>info. ss (xs ! k) = Some info \<and> LastHot info = rt"
        "\<forall>x\<in>set xs. \<forall>info. ss x = Some info \<longrightarrow> rt \<le> LastHot info"
        "\<forall>j<k. \<forall>info. ss (xs ! j) = Some info \<longrightarrow> rt < LastHot info" by blast
        have "\<forall>j<Suc k. \<forall>info. ss ((x # xs) ! j) = Some info \<longrightarrow> rt < LastHot info"
          using k(6) k(3) Some by (auto simp: less_Suc_eq_0_disj)
        with k Some True have "Suc k < length (x # xs) \<and> r = i + Suc k \<and> rt < ot \<and> (\<exists>info. ss ((x # xs) ! Suc k) = Some info \<and> LastHot info = rt) \<and>
      (\<forall>y\<in>set (x # xs). \<forall>info. ss y = Some info \<longrightarrow> rt \<le> LastHot info) \<and>
      (\<forall>j<Suc k. \<forall>info. ss ((x # xs) ! j) = Some info \<longrightarrow> rt < LastHot info)" by auto
        then show ?thesis by blast
      qed
    next
      case False
      with Some Cons.prems have "oldestScan ss xs (Suc i) (oi, ot) = (r, rt)" by simp
      from Cons.IH[OF this] show ?thesis
      proof
        assume "r = oi \<and> rt = ot \<and> (\<forall>x\<in>set xs. \<forall>info. ss x = Some info \<longrightarrow> ot \<le> LastHot info)"
        with Some False show ?thesis by auto
      next
        assume "\<exists>k<length xs. r = Suc i + k \<and> rt < ot \<and> (\<exists>info. ss (xs ! k) = Some info \<and> LastHot info = rt) \<and>
      (\<forall>x\<in>set xs. \<forall>info. ss x = Some info \<longrightarrow> rt \<le> LastHot info) \<and>
      (\<forall>j<k. \<forall>info. ss (xs ! j) = Some info \<longrightarrow> rt < LastHot info)"
        then obtain k where k: "k < length xs" "r = Suc i + k" "rt < ot" "\<exists>info. ss (xs ! k) = Some info \<and> LastHot info = rt"
        "\<forall>x\<in>set xs. \<forall>info. ss x = Some info \<longrightarrow> rt \<le> LastHot info"
        "\<forall>j<k. \<forall>info. ss (xs ! j) = Some info \<longrightarrow> rt < LastHot info" by blast
        have "\<forall>j<Suc k. \<forall>info. ss ((x # xs) ! j) = Some info \<longrightarrow> rt < LastHot info"
          using k(6) k(3) Some False by (auto simp: less_Suc_eq_0_disj)
        with k Some False have "Suc k < length (x # xs) \<and> r = i + Suc k \<and> rt < ot \<and> (\<exists>info. ss ((x # xs) ! Suc k) = Some info \<and> LastHot info = rt) \<and>
      (\<forall>y\<in>set (x # xs). \<forall>info. ss y = Some info \<longrightarrow> rt \<le> LastHot info) \<and>
      (\<forall>j<Suc k. \<forall>info. ss ((x # xs) ! j) = Some info \<longrightarrow> rt < LastHot info)" by auto
        then show ?thesis by blast
      qed
    qed
  qed
qed

subsection \<open>What one promotion does to the hot list\<close>

lemma demoteOldest_fields [simp]:
  "sessions (demoteOldestLocked now tw) = sessions tw"
  "watchDirs (demoteOldestLocked now tw) = watchDirs tw"
  "events (demoteOldestLocked now tw) = events tw"
  by (simp_all add: demoteOldestLocked_def Let_def)

lemma watchDirOf_fields [simp]:
  "sessions (watchDirOf Dir ok info tw) = sessions tw"
  "hotIDs (watchDirOf Dir ok info tw) = hotIDs tw"
  "events (watchDirOf Dir ok info tw) = events tw"
  by (simp_all add: watchDirOf_def Let_def)

lemma demoteOldest_char:
  assumes ne: "hotIDs tw \<noteq> []"
    and reg: "\<forall>h\<in>set (hotIDs tw). \<exists>i. sessions tw h = Some i \<and> LastHot i \<le> now"
  shows "\<exists>k<length (hotIDs tw).
           hotIDs (demoteOldestLocked now tw) = take k (hotIDs tw) @ drop (Suc k) (hotIDs tw) \<and>
           (\<exists>ik. sessions tw (hotIDs tw ! k) = Some ik \<and>
              (\<forall>h\<in>set (hotIDs tw). \<forall>i. sessions tw h = Some i \<longrightarrow> LastHot ik \<le> LastHot i) \<and>
              (\<forall>j<k. \<forall>i. sessions tw (hotIDs tw ! j) = Some i \<longrightarrow> LastHot ik < LastHot i))"
proof -
  obtain r rt where scan: "oldestScan (sessions tw) (hotIDs tw) 0 (0, now) = (r, rt)"
    by (cases "oldestScan (sessions tw) (hotIDs tw) 0 (0, now)")
  have hot': "hotIDs (demoteOldestLocked now tw) = take r (hotIDs tw) @ drop (Suc r) (hotIDs tw)"
    using ne scan by (simp add: demoteOldestLocked_def)
  from oldestScan_cases[OF scan] show ?thesis
  proof
    assume a: "r = 0 \<and> rt = now \<and>
      (\<forall>x\<in>set (hotIDs tw). \<forall>info. sessions tw x = Some info \<longrightarrow> now \<le> LastHot info)"
    from ne have len: "0 < length (hotIDs tw)" by simp
    then have "hotIDs tw ! 0 \<in> set (hotIDs tw)" by (rule nth_mem)
    with reg obtain i0 where i0: "sessions tw (hotIDs tw ! 0) = Some i0" "LastHot i0 \<le> now"
      by blast
    have "\<forall>h\<in>set (hotIDs tw). \<forall>i. sessions tw h = Some i \<longrightarrow> LastHot i0 \<le> LastHot i"
      using a i0 by fastforce
    with a len hot' i0 show ?thesis by auto
  next
    assume "\<exists>k<length (hotIDs tw). r = 0 + k \<and> rt < now \<and>
      (\<exists>info. sessions tw (hotIDs tw ! k) = Some info \<and> LastHot info = rt) \<and>
      (\<forall>x\<in>set (hotIDs tw). \<forall>info. sessions tw x = Some info \<longrightarrow> rt \<le> LastHot info) \<and>
      (\<forall>j<k. \<forall>info. sessions tw (hotIDs tw ! j) = Some info \<longrightarrow> rt < LastHot info)"
    with hot' show ?thesis by auto
  qed
qed

lemma PromoteToHot_sessions:
  "sessions tw sid = Some info \<Longrightarrow>
   sessions (PromoteToHot Dir io sid tw) = (sessions tw)(sid \<mapsto> info\<lparr>LastHot := now_hot io\<rparr>)"
  by (simp add: PromoteToHot_def Let_def)

lemma PromoteToHot_events:
  "events (PromoteToHot Dir io sid tw) = events tw"
  by (simp add: PromoteToHot_def Let_def split: option.splits)

lemma PromoteToHot_hot_already:
  "sessions tw sid = Some info \<Longrightarrow> sid \<in> set (hotIDs tw) \<Longrightarrow>
   hotIDs (PromoteToHot Dir io sid tw) = hotIDs tw"
  by (simp add: PromoteToHot_def Let_def)

lemma PromoteToHot_hot_room:
  "sessions tw sid = Some info \<Longrightarrow> sid \<notin> set (hotIDs tw) \<Longrightarrow>
   length (hotIDs tw) < MaxHotSessions \<Longrightarrow>
   hotIDs (PromoteToHot Dir io sid tw) = hotIDs tw @ [sid]"
  by (simp add: PromoteToHot_def Let_def)

lemma PromoteToHot_hot_evict:
  assumes reg: "sessions tw sid = Some info"
    and cold: "sid \<notin> set (hotIDs tw)"
    and full: "MaxHotSessions \<le> length (hotIDs tw)"
    and hot: "\<forall>h\<in>set (hotIDs tw). \<exists>i. sessions tw h = Some i \<and> LastHot i \<le> now_hot io"
    and clock: "now_hot io \<le> now_scan io"
  shows "\<exists>k<length (hotIDs tw).
           hotIDs (PromoteToHot Dir io sid tw) =
             take k (hotIDs tw) @ drop (Suc k) (hotIDs tw) @ [sid] \<and>
           (\<exists>ik. sessions tw (hotIDs tw ! k) = Some ik \<and>
              (\<forall>h\<in>set (hotIDs tw). \<forall>i. sessions tw h = Some i \<longrightarrow> LastHot ik \<le> LastHot i))"
proof -
  define hs where "hs = hotIDs tw"
  define tw2 where
    "tw2 = tw\<lparr>sessions := (sessions tw)(sid \<mapsto> info\<lparr>LastHot := now_hot io\<rparr>),
             hotIDs := hs @ [sid]\<rparr>"
  have hs_ne: "hs \<noteq> []" using full by (auto simp: hs_def MaxHotSessions_def)
  have res: "hotIDs (PromoteToHot Dir io sid tw) = hotIDs (demoteOldestLocked (now_scan io) tw2)"
    using reg cold full by (simp add: PromoteToHot_def Let_def tw2_def hs_def)
  have s2: "sessions tw2 = (sessions tw)(sid \<mapsto> info\<lparr>LastHot := now_hot io\<rparr>)"
    and h2: "hotIDs tw2 = hs @ [sid]" by (simp_all add: tw2_def)
  have reg2: "\<forall>h\<in>set (hotIDs tw2). \<exists>i. sessions tw2 h = Some i \<and> LastHot i \<le> now_scan io"
    using hot clock by (auto simp: s2 h2 hs_def)
  have "hotIDs tw2 \<noteq> []" by (simp add: h2)
  from demoteOldest_char[OF this reg2] obtain k ik where
    k: "k < length (hs @ [sid])"
    and hk: "hotIDs (demoteOldestLocked (now_scan io) tw2) =
               take k (hs @ [sid]) @ drop (Suc k) (hs @ [sid])"
    and ik: "sessions tw2 ((hs @ [sid]) ! k) = Some ik"
    and mn: "\<forall>h\<in>set (hs @ [sid]). \<forall>i. sessions tw2 h = Some i \<longrightarrow> LastHot ik \<le> LastHot i"
    and st: "\<forall>j<k. \<forall>i. sessions tw2 ((hs @ [sid]) ! j) = Some i \<longrightarrow> LastHot ik < LastHot i"
    unfolding h2 by blast
  have klt: "k < length hs"
  proof (rule ccontr)
    assume "\<not> k < length hs"
    with k have keq: "k = length hs" by simp
    then have "LastHot ik = now_hot io" using ik by (auto simp: s2)
    moreover have "0 < k" using keq hs_ne by simp
    moreover have "hs ! 0 \<in> set hs" using hs_ne by simp
    then obtain i0 where "sessions tw (hs ! 0) = Some i0" "LastHot i0 \<le> now_hot io"
      using hot unfolding hs_def by blast
    moreover have "hs ! 0 \<noteq> sid" using cold \<open>hs ! 0 \<in> set hs\<close> unfolding hs_def by auto
    ultimately show False using st[rule_format, of 0 i0] hs_ne
      by (simp add: s2 nth_append)
  qed
  have vk: "(hs @ [sid]) ! k = hs ! k" using klt by (simp add: nth_append)
  have vne: "hs ! k \<noteq> sid" using klt cold unfolding hs_def by (metis nth_mem)
  have ik': "sessions tw (hs ! k) = Some ik" using ik vk vne by (simp add: s2)
  have mn': "\<forall>h\<in>set hs. \<forall>i. sessions tw h = Some i \<longrightarrow> LastHot ik \<le> LastHot i"
  proof (intro ballI allI impI)
    fix h i assume h: "h \<in> set hs" and i: "sessions tw h = Some i"
    then have "h \<noteq> sid" using cold unfolding hs_def by auto
    with i have "sessions tw2 h = Some i" by (simp add: s2)
    with mn h show "LastHot ik \<le> LastHot i" by auto
  qed
  have "take k (hs @ [sid]) @ drop (Suc k) (hs @ [sid]) = take k hs @ drop (Suc k) hs @ [sid]"
    using klt by simp
  with res hk klt ik' mn' show ?thesis unfolding hs_def by auto
qed

lemma remove_nth_props:
  assumes "distinct hs" "k < length hs"
  shows "distinct (take k hs @ drop (Suc k) hs)"
    and "set (take k hs @ drop (Suc k) hs) = set hs - {hs ! k}"
    and "length (take k hs @ drop (Suc k) hs) = length hs - 1"
proof -
  have split: "hs = take k hs @ hs ! k # drop (Suc k) hs"
    using assms(2) by (rule id_take_nth_drop)
  have d: "distinct (take k hs @ hs ! k # drop (Suc k) hs)"
    using assms(1) split by simp
  then show "distinct (take k hs @ drop (Suc k) hs)" by auto
  have "set hs = set (take k hs @ hs ! k # drop (Suc k) hs)" using split by simp
  with d show "set (take k hs @ drop (Suc k) hs) = set hs - {hs ! k}" by auto
  show "length (take k hs @ drop (Suc k) hs) = length hs - 1" using assms(2) by simp
qed

lemma promote_step:
  assumes inv: "hotInv tw T" and le: "T \<le> now_hot io" and clock: "now_hot io \<le> now_scan io"
    and reg: "sessions tw sid = Some info"
  shows "hotInv (PromoteToHot Dir io sid tw) (now_hot io)"
    and "sid \<in> set (hotIDs (PromoteToHot Dir io sid tw))"
    and "set (hotIDs (PromoteToHot Dir io sid tw)) \<subseteq> insert sid (set (hotIDs tw))"
    and "length (hotIDs tw) = MaxHotSessions \<Longrightarrow>
         length (hotIDs (PromoteToHot Dir io sid tw)) = MaxHotSessions"
proof -
  let ?tw' = "PromoteToHot Dir io sid tw"
  have dist: "distinct (hotIDs tw)" and len: "length (hotIDs tw) \<le> MaxHotSessions"
    and hot: "\<forall>h\<in>set (hotIDs tw). \<exists>i. sessions tw h = Some i \<and> LastHot i \<le> T"
    using inv by (simp_all add: hotInv_def)
  have hot': "\<forall>h\<in>set (hotIDs tw). \<exists>i. sessions tw h = Some i \<and> LastHot i \<le> now_hot io"
    using hot le by fastforce
  have ses: "sessions ?tw' = (sessions tw)(sid \<mapsto> info\<lparr>LastHot := now_hot io\<rparr>)"
    using reg by (rule PromoteToHot_sessions)
  have bound: "\<forall>h\<in>insert sid (set (hotIDs tw)). \<exists>i. sessions ?tw' h = Some i \<and> LastHot i \<le> now_hot io"
    using hot' by (auto simp: ses)
  have shape: "distinct (hotIDs ?tw') \<and> length (hotIDs ?tw') \<le> MaxHotSessions \<and>
      sid \<in> set (hotIDs ?tw') \<and> set (hotIDs ?tw') \<subseteq> insert sid (set (hotIDs tw)) \<and>
      (length (hotIDs tw) = MaxHotSessions \<longrightarrow> length (hotIDs ?tw') = MaxHotSessions)"
  proof (cases "sid \<in> set (hotIDs tw)")
    case True
    then have "hotIDs ?tw' = hotIDs tw" using reg by (simp add: PromoteToHot_hot_already)
    with True dist len show ?thesis by auto
  next
    case cold: False
    show ?thesis
    proof (cases "length (hotIDs tw) < MaxHotSessions")
      case True
      then have "hotIDs ?tw' = hotIDs tw @ [sid]"
        using reg cold by (simp add: PromoteToHot_hot_room)
      with True cold dist show ?thesis by auto
    next
      case False
      with len have full: "length (hotIDs tw) = MaxHotSessions" by simp
      then have "MaxHotSessions \<le> length (hotIDs tw)" by simp
      from PromoteToHot_hot_evict[OF reg cold this hot' clock] obtain k where
        k: "k < length (hotIDs tw)"
        and e: "hotIDs ?tw' = take k (hotIDs tw) @ drop (Suc k) (hotIDs tw) @ [sid]"
        by blast
      note r = remove_nth_props[OF dist k]
      have e': "hotIDs ?tw' = (take k (hotIDs tw) @ drop (Suc k) (hotIDs tw)) @ [sid]"
        using e by simp
      have "distinct (hotIDs ?tw')" unfolding e' using r(1) r(2) cold by auto
      moreover have "length (hotIDs ?tw') = MaxHotSessions"
        unfolding e' using r(3) full k by simp
      moreover have "sid \<in> set (hotIDs ?tw')" unfolding e' by simp
      moreover have "set (hotIDs ?tw') \<subseteq> insert sid (set (hotIDs tw))"
        unfolding e' using r(2) by auto
      ultimately show ?thesis by simp
    qed
  qed
  then show "sid \<in> set (hotIDs ?tw')"
    and "set (hotIDs ?tw') \<subseteq> insert sid (set (hotIDs tw))"
    and "length (hotIDs tw) = MaxHotSessions \<Longrightarrow> length (hotIDs ?tw') = MaxHotSessions"
    by simp_all
  show "hotInv ?tw' (now_hot io)"
    unfolding hotInv_def using shape bound by blast
qed

lemma promote_survive:
  assumes inv: "hotInv tw T" and le: "T \<le> now_hot io" and clock: "now_hot io \<le> now_scan io"
    and reg: "sessions tw sid = Some info"
    and x: "x \<in> set (hotIDs tw)" and y: "y \<in> set (hotIDs tw)"
    and ix: "sessions tw x = Some ix" and iy: "sessions tw y = Some iy"
    and lt: "LastHot iy < LastHot ix"
  shows "x \<in> set (hotIDs (PromoteToHot Dir io sid tw))"
proof -
  let ?tw' = "PromoteToHot Dir io sid tw"
  have dist: "distinct (hotIDs tw)" and len: "length (hotIDs tw) \<le> MaxHotSessions"
    and hot: "\<forall>h\<in>set (hotIDs tw). \<exists>i. sessions tw h = Some i \<and> LastHot i \<le> T"
    using inv by (simp_all add: hotInv_def)
  have hot': "\<forall>h\<in>set (hotIDs tw). \<exists>i. sessions tw h = Some i \<and> LastHot i \<le> now_hot io"
    using hot le by fastforce
  show ?thesis
  proof (cases "sid \<in> set (hotIDs tw)")
    case True
    then have "hotIDs ?tw' = hotIDs tw" using reg by (simp add: PromoteToHot_hot_already)
    with x show ?thesis by simp
  next
    case cold: False
    show ?thesis
    proof (cases "length (hotIDs tw) < MaxHotSessions")
      case True
      then have "hotIDs ?tw' = hotIDs tw @ [sid]"
        using reg cold by (simp add: PromoteToHot_hot_room)
      with x show ?thesis by simp
    next
      case False
      then have "MaxHotSessions \<le> length (hotIDs tw)" by simp
      from PromoteToHot_hot_evict[OF reg cold this hot' clock] obtain k ik where
        k: "k < length (hotIDs tw)"
        and e: "hotIDs ?tw' = take k (hotIDs tw) @ drop (Suc k) (hotIDs tw) @ [sid]"
        and ik: "sessions tw (hotIDs tw ! k) = Some ik"
        and mn: "\<forall>h\<in>set (hotIDs tw). \<forall>i. sessions tw h = Some i \<longrightarrow> LastHot ik \<le> LastHot i"
        by blast
      have "LastHot ik \<le> LastHot iy" using mn y iy by blast
      with lt have "LastHot ik < LastHot ix" by simp
      with ik ix have "hotIDs tw ! k \<noteq> x" by auto
      moreover have "set (take k (hotIDs tw) @ drop (Suc k) (hotIDs tw)) = set (hotIDs tw) - {hotIDs tw ! k}"
        by (rule remove_nth_props(2)[OF dist k])
      ultimately have "x \<in> set (take k (hotIDs tw) @ drop (Suc k) (hotIDs tw))"
        using x by simp
      then show ?thesis unfolding e by auto
    qed
  qed
qed

subsection \<open>Batch registration and the five-session scenario\<close>

lemma promoteLoop_inv:
  "\<lbrakk>distinct (hotIDs tw @ xs); set xs \<subseteq> dom (sessions tw);
    \<forall>h\<in>set (hotIDs tw). \<exists>inf. sessions tw h = Some inf \<and> LastHot inf \<le> T;
    \<forall>j. i \<le> j \<and> j < MaxHotSessions \<longrightarrow> fst (ios j) \<le> T\<rbrakk> \<Longrightarrow>
   hotIDs (promoteLoop Dir ios i xs tw) = hotIDs tw @ take (MaxHotSessions - i) xs \<and>
   dom (sessions (promoteLoop Dir ios i xs tw)) = dom (sessions tw) \<and>
   (\<forall>h\<in>set (hotIDs (promoteLoop Dir ios i xs tw)).
      \<exists>inf. sessions (promoteLoop Dir ios i xs tw) h = Some inf \<and> LastHot inf \<le> T)"
proof (induction xs arbitrary: i tw)
  case Nil
  then show ?case by simp
next
  case (Cons x xs)
  show ?case
  proof (cases "i < MaxHotSessions")
    case False
    with Cons.prems show ?thesis by simp
  next
    case True
    from Cons.prems(2) obtain info0 where i0: "sessions tw x = Some info0" by auto
    define info where "info = info0\<lparr>LastHot := fst (ios i)\<rparr>"
    define tw' where "tw' = watchDirOf Dir (snd (ios i)) info
        (tw\<lparr>sessions := (sessions tw)(x \<mapsto> info), hotIDs := hotIDs tw @ [x]\<rparr>)"
    have xnew: "x \<notin> set (hotIDs tw)" using Cons.prems(1) by auto
    have unf: "promoteLoop Dir ios i (x # xs) tw = promoteLoop Dir ios (Suc i) xs tw'"
      using True i0 xnew by (simp add: Let_def tw'_def info_def)
    have s': "sessions tw' = (sessions tw)(x \<mapsto> info)" and h': "hotIDs tw' = hotIDs tw @ [x]"
      by (simp_all add: tw'_def)
    have p1: "distinct (hotIDs tw' @ xs)" using Cons.prems(1) by (simp add: h')
    have p2: "set xs \<subseteq> dom (sessions tw')" using Cons.prems(2) by (auto simp: s')
    have "fst (ios i) \<le> T" using Cons.prems(4) True by simp
    then have p3: "\<forall>h\<in>set (hotIDs tw'). \<exists>inf. sessions tw' h = Some inf \<and> LastHot inf \<le> T"
      using Cons.prems(3) by (auto simp: s' h' info_def)
    have p4: "\<forall>j. Suc i \<le> j \<and> j < MaxHotSessions \<longrightarrow> fst (ios j) \<le> T"
      using Cons.prems(4) by simp
    have d: "dom (sessions tw') = dom (sessions tw)" using i0 by (auto simp: s')
    have t: "take (MaxHotSessions - i) (x # xs) = x # take (MaxHotSessions - Suc i) xs"
    proof -
      from True have "MaxHotSessions - i = Suc (MaxHotSessions - Suc i)" by simp
      then show ?thesis by simp
    qed
    from Cons.IH[OF p1 p2 p3 p4] show ?thesis
      unfolding unf by (simp add: h' d t)
  qed
qed

lemma pick_other:
  assumes "distinct hs" "length hs = 3"
  shows "\<exists>y\<in>set hs. y \<noteq> a \<and> y \<noteq> b"
proof (rule ccontr)
  assume "\<not> (\<exists>y\<in>set hs. y \<noteq> a \<and> y \<noteq> b)"
  then have "set hs \<subseteq> {a, b}" by auto
  then have "card (set hs) \<le> card {a, b}" by (intro card_mono) simp_all
  also have "\<dots> \<le> 2" by (simp add: card_insert_if)
  finally show False using assms by (simp add: distinct_card)
qed

lemma autoPromote_loop:
  "autoPromoteRecentLocked Dir ios srt tw = promoteLoop Dir ios 0 srt tw"
  by (cases srt) (simp_all add: autoPromoteRecentLocked_def)

lemma five_registered:
  assumes ids: "distinct [ID s1, ID s2, ID s3, ID s4, ID s5]"
  shows "dom (sessions (addSessions [s1, s2, s3, s4, s5] (New root pat ext))) =
           {ID s1, ID s2, ID s3, ID s4, ID s5}"
    and "hotIDs (addSessions [s1, s2, s3, s4, s5] (New root pat ext)) = []"
  using ids by (auto simp: New_def split: if_splits)

lemma five_batch:
  assumes ids: "distinct [ID s1, ID s2, ID s3, ID s4, ID s5]"
    and srt: "sortedSessions (addSessions [s1, s2, s3, s4, s5] (New root pat ext)) srt"
    and auto_clock: "\<forall>j<MaxHotSessions. fst (ios j) \<le> T"
  shows "hotInv (RegisterSessions Dir ios srt [s1, s2, s3, s4, s5] (New root pat ext)) T"
    and "length (hotIDs (RegisterSessions Dir ios srt [s1, s2, s3, s4, s5] (New root pat ext))) = 3"
    and "dom (sessions (RegisterSessions Dir ios srt [s1, s2, s3, s4, s5] (New root pat ext))) =
           {ID s1, ID s2, ID s3, ID s4, ID s5}"
proof -
  let ?reg = "addSessions [s1, s2, s3, s4, s5] (New root pat ext)"
  let ?tw0 = "RegisterSessions Dir ios srt [s1, s2, s3, s4, s5] (New root pat ext)"
  note r = five_registered[OF ids, of root pat ext]
  have d: "distinct srt" and s: "set srt = {ID s1, ID s2, ID s3, ID s4, ID s5}"
    using srt r(1) by (simp_all add: sortedSessions_def)
  have "card (set srt) = 5" using ids unfolding s by simp
  then have len: "length srt = 5" using d by (simp add: distinct_card)
  have tw0: "?tw0 = promoteLoop Dir ios 0 srt ?reg"
    by (simp add: RegisterSessions_def autoPromote_loop)
  have p1: "distinct (hotIDs ?reg @ srt)" using d r(2) by simp
  have p2: "set srt \<subseteq> dom (sessions ?reg)" using s r(1) by simp
  have p3: "\<forall>h\<in>set (hotIDs ?reg). \<exists>inf. sessions ?reg h = Some inf \<and> LastHot inf \<le> T"
    using r(2) by simp
  have p4: "\<forall>j. 0 \<le> j \<and> j < MaxHotSessions \<longrightarrow> fst (ios j) \<le> T"
    using auto_clock by simp
  note L = promoteLoop_inv[OF p1 p2 p3 p4, of Dir, folded tw0]
  from L have h0: "hotIDs ?tw0 = take 3 srt" using r(2) by (simp add: MaxHotSessions_def)
  show "length (hotIDs ?tw0) = 3" using h0 len by simp
  show "dom (sessions ?tw0) = {ID s1, ID s2, ID s3, ID s4, ID s5}" using L r(1) by simp
  have "distinct (hotIDs ?tw0)" using h0 d by simp
  moreover have "length (hotIDs ?tw0) \<le> MaxHotSessions" using h0 by (simp add: MaxHotSessions_def)
  ultimately show "hotInv ?tw0 T" using L unfolding hotInv_def by blast
qed

lemma five_promoted:
  fixes Dir :: "string \<Rightarrow> string"
  assumes inv0: "hotInv tw0 (now_hot io1)" and len0: "length (hotIDs tw0) = MaxHotSessions"
    and dom0: "{a1, a2, a3, a4, a5} \<subseteq> dom (sessions tw0)"
    and ids: "distinct [a1, a2, a3, a4, a5]"
    and c12: "now_hot io1 < now_hot io2" and c23: "now_hot io2 < now_hot io3"
    and c34: "now_hot io3 < now_hot io4" and c45: "now_hot io4 < now_hot io5"
    and k1: "now_hot io1 \<le> now_scan io1" and k2: "now_hot io2 \<le> now_scan io2"
    and k3: "now_hot io3 \<le> now_scan io3" and k4: "now_hot io4 \<le> now_scan io4"
    and k5: "now_hot io5 \<le> now_scan io5"
  defines "tw1 \<equiv> PromoteToHot Dir io1 a1 tw0"
  defines "tw2 \<equiv> PromoteToHot Dir io2 a2 tw1"
  defines "tw3 \<equiv> PromoteToHot Dir io3 a3 tw2"
  defines "tw4 \<equiv> PromoteToHot Dir io4 a4 tw3"
  defines "tw5 \<equiv> PromoteToHot Dir io5 a5 tw4"
  shows "set (hotIDs tw5) = {a3, a4, a5}" and "length (hotIDs tw5) = MaxHotSessions"
    and "dom (sessions tw5) = dom (sessions tw0)"
proof -
  obtain i1 where r1: "sessions tw0 a1 = Some i1" using dom0 by auto
  note s1 = PromoteToHot_sessions[OF r1, of Dir io1, folded tw1_def]
  note p1 = promote_step[OF inv0 order_refl k1 r1, of Dir, folded tw1_def]
  have d1: "dom (sessions tw1) = dom (sessions tw0)" using r1 by (auto simp: s1)
  have l1: "length (hotIDs tw1) = MaxHotSessions" using p1(4) len0 by simp

  have "a2 \<in> dom (sessions tw1)" using dom0 unfolding d1 by simp
  then obtain i2 where r2: "sessions tw1 a2 = Some i2" by blast
  note s2 = PromoteToHot_sessions[OF r2, of Dir io2, folded tw2_def]
  have le2: "now_hot io1 \<le> now_hot io2" using c12 by simp
  note p2 = promote_step[OF p1(1) le2 k2 r2, of Dir, folded tw2_def]
  have d2: "dom (sessions tw2) = dom (sessions tw0)" using r2 d1 by (auto simp: s2)
  have l2: "length (hotIDs tw2) = MaxHotSessions" using p2(4) l1 by simp
  have b2: "\<forall>h\<in>set (hotIDs tw2). \<exists>i. sessions tw2 h = Some i \<and> LastHot i \<le> now_hot io2"
    using p2(1) by (simp add: hotInv_def)

  have "a3 \<in> dom (sessions tw2)" using dom0 unfolding d2 by simp
  then obtain i3 where r3: "sessions tw2 a3 = Some i3" by blast
  note s3 = PromoteToHot_sessions[OF r3, of Dir io3, folded tw3_def]
  have le3: "now_hot io2 \<le> now_hot io3" using c23 by simp
  note p3 = promote_step[OF p2(1) le3 k3 r3, of Dir, folded tw3_def]
  have d3: "dom (sessions tw3) = dom (sessions tw0)" using r3 d2 by (auto simp: s3)
  have l3: "length (hotIDs tw3) = MaxHotSessions" using p3(4) l2 by simp
  have dist3: "distinct (hotIDs tw3)" using p3(1) by (simp add: hotInv_def)
  have x3: "sessions tw3 a3 = Some (i3\<lparr>LastHot := now_hot io3\<rparr>)" by (simp add: s3)
  have o3: "\<exists>i. sessions tw3 y = Some i \<and> LastHot i \<le> now_hot io2"
    if "y \<in> set (hotIDs tw3)" "y \<noteq> a3" for y
  proof -
    from that p3(3) have "y \<in> set (hotIDs tw2)" by auto
    with b2 that(2) show ?thesis by (simp add: s3)
  qed
  have b3: "\<forall>h\<in>set (hotIDs tw3). \<exists>i. sessions tw3 h = Some i \<and> LastHot i \<le> now_hot io3"
    using p3(1) by (simp add: hotInv_def)

  have "a4 \<in> dom (sessions tw3)" using dom0 unfolding d3 by simp
  then obtain i4 where r4: "sessions tw3 a4 = Some i4" by blast
  note s4 = PromoteToHot_sessions[OF r4, of Dir io4, folded tw4_def]
  have le4: "now_hot io3 \<le> now_hot io4" using c34 by simp
  note p4 = promote_step[OF p3(1) le4 k4 r4, of Dir, folded tw4_def]
  have d4: "dom (sessions tw4) = dom (sessions tw0)" using r4 d3 by (auto simp: s4)
  have l4: "length (hotIDs tw4) = MaxHotSessions" using p4(4) l3 by simp
  have dist4: "distinct (hotIDs tw4)" using p4(1) by (simp add: hotInv_def)
  have a34: "a3 \<noteq> a4" "a3 \<noteq> a5" "a4 \<noteq> a5" using ids by auto
  have m34: "a3 \<in> set (hotIDs tw4)"
  proof -
    from pick_other[OF dist3, of a3 a3] l3 obtain y where
      y: "y \<in> set (hotIDs tw3)" "y \<noteq> a3" by (auto simp: MaxHotSessions_def)
    from o3[OF y] obtain iy where iy: "sessions tw3 y = Some iy" "LastHot iy \<le> now_hot io2"
      by blast
    have "LastHot iy < LastHot (i3\<lparr>LastHot := now_hot io3\<rparr>)" using iy(2) c23 by simp
    from promote_survive[OF p3(1) le4 k4 r4 p3(2) y(1) x3 iy(1) this]
    show ?thesis by (simp add: tw4_def)
  qed
  have x4: "sessions tw4 a4 = Some (i4\<lparr>LastHot := now_hot io4\<rparr>)" by (simp add: s4)
  have x34: "sessions tw4 a3 = Some (i3\<lparr>LastHot := now_hot io3\<rparr>)"
    using x3 a34 by (simp add: s4)
  have o4: "\<exists>i. sessions tw4 y = Some i \<and> LastHot i \<le> now_hot io3"
    if "y \<in> set (hotIDs tw4)" "y \<noteq> a4" for y
  proof -
    from that p4(3) have "y \<in> set (hotIDs tw3)" by auto
    with b3 that(2) show ?thesis by (simp add: s4)
  qed
  have o4': "\<exists>i. sessions tw4 y = Some i \<and> LastHot i \<le> now_hot io2"
    if "y \<in> set (hotIDs tw4)" "y \<noteq> a4" "y \<noteq> a3" for y
  proof -
    from that p4(3) have "y \<in> set (hotIDs tw3)" by auto
    from o3[OF this that(3)] that(2) show ?thesis by (simp add: s4)
  qed

  have "a5 \<in> dom (sessions tw4)" using dom0 unfolding d4 by simp
  then obtain i5 where r5: "sessions tw4 a5 = Some i5" by blast
  note s5 = PromoteToHot_sessions[OF r5, of Dir io5, folded tw5_def]
  have le5: "now_hot io4 \<le> now_hot io5" using c45 by simp
  note p5 = promote_step[OF p4(1) le5 k5 r5, of Dir, folded tw5_def]
  have d5: "dom (sessions tw5) = dom (sessions tw0)" using r5 d4 by (auto simp: s5)
  have l5: "length (hotIDs tw5) = MaxHotSessions" using p5(4) l4 by simp
  have dist5: "distinct (hotIDs tw5)" using p5(1) by (simp add: hotInv_def)
  have m45: "a4 \<in> set (hotIDs tw5)"
  proof -
    from pick_other[OF dist4, of a4 a4] l4 obtain y where
      y: "y \<in> set (hotIDs tw4)" "y \<noteq> a4" by (auto simp: MaxHotSessions_def)
    from o4[OF y] obtain iy where iy: "sessions tw4 y = Some iy" "LastHot iy \<le> now_hot io3"
      by blast
    have "LastHot iy < LastHot (i4\<lparr>LastHot := now_hot io4\<rparr>)" using iy(2) c34 by simp
    from promote_survive[OF p4(1) le5 k5 r5 p4(2) y(1) x4 iy(1) this]
    show ?thesis by (simp add: tw5_def)
  qed
  have m35: "a3 \<in> set (hotIDs tw5)"
  proof -
    from pick_other[OF dist4, of a4 a3] l4 obtain y where
      y: "y \<in> set (hotIDs tw4)" "y \<noteq> a4" "y \<noteq> a3" by (auto simp: MaxHotSessions_def)
    from o4'[OF y] obtain iy where iy: "sessions tw4 y = Some iy" "LastHot iy \<le> now_hot io2"
      by blast
    have "LastHot iy < LastHot (i3\<lparr>LastHot := now_hot io3\<rparr>)" using iy(2) c23 by simp
    from promote_survive[OF p4(1) le5 k5 r5 m34 y(1) x34 iy(1) this]
    show ?thesis by (simp add: tw5_def)
  qed
  have sub: "{a3, a4, a5} \<subseteq> set (hotIDs tw5)" using m35 m45 p5(2) by simp
  have "card {a3, a4, a5} = 3" using a34 by simp
  moreover have "card (set (hotIDs tw5)) = 3"
    using dist5 l5 by (simp add: distinct_card MaxHotSessions_def)
  ultimately have "{a3, a4, a5} = set (hotIDs tw5)"
    using sub by (intro card_subset_eq) simp_all
  then show "set (hotIDs tw5) = {a3, a4, a5}" by simp
  show "length (hotIDs tw5) = MaxHotSessions" by (rule l5)
  show "dom (sessions tw5) = dom (sessions tw0)" by (rule d5)
qed

lemma remove1_nth:
  assumes "distinct hs" "k < length hs"
  shows "remove1 (hs ! k) hs = take k hs @ drop (Suc k) hs"
proof -
  have split: "hs = take k hs @ hs ! k # drop (Suc k) hs"
    using assms(2) by (rule id_take_nth_drop)
  then have "distinct (take k hs @ hs ! k # drop (Suc k) hs)" using assms(1) by simp
  then have "hs ! k \<notin> set (take k hs)" by auto
  then have "remove1 (hs ! k) (take k hs @ hs ! k # drop (Suc k) hs) =
               take k hs @ drop (Suc k) hs"
    by (simp add: remove1_append)
  with split show ?thesis by simp
qed

lemma promote_evicts_oldest:
  assumes reg: "sessions tw sid \<noteq> None"
    and cold: "sid \<notin> set (hotIDs tw)"
    and full: "length (hotIDs tw) = MaxHotSessions"
    and dist: "distinct (hotIDs tw)"
    and hot: "\<forall>h\<in>set (hotIDs tw). \<exists>i. sessions tw h = Some i \<and> LastHot i \<le> now_hot io"
    and clock: "now_hot io \<le> now_scan io"
  shows "\<exists>v\<in>set (hotIDs tw).
           hotIDs (PromoteToHot Dir io sid tw) = remove1 v (hotIDs tw) @ [sid] \<and>
           v \<notin> set (hotIDs (PromoteToHot Dir io sid tw)) \<and>
           sessions (PromoteToHot Dir io sid tw) v \<noteq> None \<and>
           (\<exists>iv. sessions tw v = Some iv \<and>
              (\<forall>h\<in>set (hotIDs tw). \<forall>ih. sessions tw h = Some ih \<longrightarrow> LastHot iv \<le> LastHot ih))"
proof -
  from reg obtain info where reg': "sessions tw sid = Some info" by blast
  have "MaxHotSessions \<le> length (hotIDs tw)" using full by simp
  from PromoteToHot_hot_evict[OF reg' cold this hot clock, of Dir] obtain k ik where
    k: "k < length (hotIDs tw)"
    and e: "hotIDs (PromoteToHot Dir io sid tw) =
              take k (hotIDs tw) @ drop (Suc k) (hotIDs tw) @ [sid]"
    and ik: "sessions tw (hotIDs tw ! k) = Some ik"
    and mn: "\<forall>h\<in>set (hotIDs tw). \<forall>i. sessions tw h = Some i \<longrightarrow> LastHot ik \<le> LastHot i"
    by blast
  let ?v = "hotIDs tw ! k"
  have v: "?v \<in> set (hotIDs tw)" using k by simp
  have vs: "?v \<noteq> sid" using v cold by auto
  have e': "hotIDs (PromoteToHot Dir io sid tw) = remove1 ?v (hotIDs tw) @ [sid]"
    using e remove1_nth[OF dist k] by simp
  have "?v \<notin> set (remove1 ?v (hotIDs tw))" using dist by simp
  then have gone: "?v \<notin> set (hotIDs (PromoteToHot Dir io sid tw))" using vs e' by simp
  have kept: "sessions (PromoteToHot Dir io sid tw) ?v \<noteq> None"
    using ik vs by (simp add: PromoteToHot_sessions[OF reg'])
  show ?thesis using v e' gone kept ik mn by blast
qed

subsection \<open>The claims about the watcher\<close>

lemmas ex_defs = exDir_def exInfo_def exIos_def exIo_def exBatch3_def exFull_def
  RegisterSessions_def autoPromoteRecentLocked_def RegisterSession_def New_def PromoteToHot_def
  demoteOldestLocked_def watchDirOf_def MaxHotSessions_def sortedSessions_def Let_def

lemma exFull_hot: "hotIDs exFull = [''c'', ''b'', ''a'']"
  by (simp add: ex_defs)

lemma exFull_eval: "hotIDs (PromoteToHot exDir (exIo 200) ''d'' exFull) = [''b'', ''a'', ''d'']"
  by (simp add: ex_defs)

lemma exBatch3_sessions:
  "sessions exBatch3 =
     [''c'' \<mapsto> (exInfo ''c'' 3)\<lparr>LastHot := 100\<rparr>, ''b'' \<mapsto> (exInfo ''b'' 2)\<lparr>LastHot := 101\<rparr>,
      ''a'' \<mapsto> (exInfo ''a'' 1)\<lparr>LastHot := 102\<rparr>]"
  by (simp add: ex_defs)

lemma exBatch3_hot: "hotIDs exBatch3 = [''c'', ''b'', ''a'']"
  by (simp add: ex_defs)

text \<open>
  C1.  The hot list does not stay within \<open>MaxHotSessions\<close> under batch registration:
  \<open>autoPromoteRecentLocked\<close> appends the most recently modified sessions without
  evicting.  Registering \<open>a\<close>, \<open>b\<close>, \<open>c\<close> as a batch makes all three hot; a
  second batch with the newer session \<open>d\<close> leaves four sessions hot.
\<close>

theorem C1_hot_list_exceeds_max:
  "sortedSessions
     (addSessions [exInfo ''a'' 1, exInfo ''b'' 2, exInfo ''c'' 3] (New ''/r'' ''.jsonl'' exExtract))
     [''c'', ''b'', ''a''] \<and>
   sortedSessions (addSessions [exInfo ''d'' 4] exBatch3) [''d'', ''c'', ''b'', ''a''] \<and>
   hotIDs exBatch3 = [''c'', ''b'', ''a''] \<and>
   hotIDs exBatch4 = [''c'', ''b'', ''a'', ''d''] \<and>
   MaxHotSessions < length (hotIDs exBatch4)"
proof -
  have a: "sortedSessions
     (addSessions [exInfo ''a'' 1, exInfo ''b'' 2, exInfo ''c'' 3] (New ''/r'' ''.jsonl'' exExtract))
     [''c'', ''b'', ''a'']"
    by (auto simp: sortedSessions_def exInfo_def New_def)
  have b: "sortedSessions (addSessions [exInfo ''d'' 4] exBatch3) [''d'', ''c'', ''b'', ''a'']"
    by (auto simp: sortedSessions_def exBatch3_sessions exInfo_def)
  have c: "hotIDs exBatch4 = [''c'', ''b'', ''a'', ''d'']"
    by (simp add: exBatch4_def RegisterSessions_def autoPromoteRecentLocked_def
        exBatch3_sessions exBatch3_hot exInfo_def exIos_def exDir_def watchDirOf_def
        MaxHotSessions_def Let_def)
  from a b c exBatch3_hot show ?thesis by (simp add: MaxHotSessions_def)
qed

text \<open>
  C6.  Promotion at capacity: when a registered session that is not hot is promoted while
  the hot list holds \<open>MaxHotSessions\<close> distinct registered sessions, none promoted later
  than the clock now reads, then exactly one hot session \<open>v\<close> is evicted, the new
  session is appended, \<open>v\<close> stays registered (cold), and \<open>v\<close> carries the smallest
  \<open>LastHot\<close> of the hot list.  Consequently, after five sessions are registered as one
  batch into a fresh watcher (whatever their modification times and however the sort
  orders equal ones) and then promoted in order under a strictly advancing clock, exactly
  the last three promoted are hot and the first two are registered but cold.
\<close>

theorem C6_promote_evicts_oldest:
  "(sessions tw sid \<noteq> None \<and> sid \<notin> set (hotIDs tw) \<and>
    length (hotIDs tw) = MaxHotSessions \<and> distinct (hotIDs tw) \<and>
    (\<forall>h\<in>set (hotIDs tw). \<exists>i. sessions tw h = Some i \<and> LastHot i \<le> now_hot io) \<and>
    now_hot io \<le> now_scan io \<longrightarrow>
    (\<exists>v\<in>set (hotIDs tw).
       hotIDs (PromoteToHot Dir io sid tw) = remove1 v (hotIDs tw) @ [sid] \<and>
       v \<notin> set (hotIDs (PromoteToHot Dir io sid tw)) \<and>
       sessions (PromoteToHot Dir io sid tw) v \<noteq> None \<and>
       (\<exists>iv. sessions tw v = Some iv \<and>
          (\<forall>h\<in>set (hotIDs tw). \<forall>ih. sessions tw h = Some ih \<longrightarrow>
             LastHot iv \<le> LastHot ih)))) \<and>
   (distinct [ID s1, ID s2, ID s3, ID s4, ID s5] \<and>
    sortedSessions (addSessions [s1, s2, s3, s4, s5] (New root pat ext)) srt \<and>
    (\<forall>j<MaxHotSessions. fst (ios j) \<le> now_hot io1) \<and>
    now_hot io1 < now_hot io2 \<and> now_hot io2 < now_hot io3 \<and>
    now_hot io3 < now_hot io4 \<and> now_hot io4 < now_hot io5 \<and>
    now_hot io1 \<le> now_scan io1 \<and> now_hot io2 \<le> now_scan io2 \<and>
    now_hot io3 \<le> now_scan io3 \<and> now_hot io4 \<le> now_scan io4 \<and>
    now_hot io5 \<le> now_scan io5 \<and>
    tw5 = PromoteToHot Dir io5 (ID s5) (PromoteToHot Dir io4 (ID s4)
            (PromoteToHot Dir io3 (ID s3) (PromoteToHot Dir io2 (ID s2)
              (PromoteToHot Dir io1 (ID s1)
                (RegisterSessions Dir ios srt [s1, s2, s3, s4, s5] (New root pat ext)))))) \<longrightarrow>
    length (hotIDs tw5) = 3 \<and> set (hotIDs tw5) = {ID s3, ID s4, ID s5} \<and>
    ID s1 \<notin> set (hotIDs tw5) \<and> ID s2 \<notin> set (hotIDs tw5) \<and>
    dom (sessions tw5) = {ID s1, ID s2, ID s3, ID s4, ID s5})"
proof (intro conjI impI)
  assume "sessions tw sid \<noteq> None \<and> sid \<notin> set (hotIDs tw) \<and>
    length (hotIDs tw) = MaxHotSessions \<and> distinct (hotIDs tw) \<and>
    (\<forall>h\<in>set (hotIDs tw). \<exists>i. sessions tw h = Some i \<and> LastHot i \<le> now_hot io) \<and>
    now_hot io \<le> now_scan io"
  then show "\<exists>v\<in>set (hotIDs tw).
       hotIDs (PromoteToHot Dir io sid tw) = remove1 v (hotIDs tw) @ [sid] \<and>
       v \<notin> set (hotIDs (PromoteToHot Dir io sid tw)) \<and>
       sessions (PromoteToHot Dir io sid tw) v \<noteq> None \<and>
       (\<exists>iv. sessions tw v = Some iv \<and>
          (\<forall>h\<in>set (hotIDs tw). \<forall>ih. sessions tw h = Some ih \<longrightarrow>
             LastHot iv \<le> LastHot ih))"
    using promote_evicts_oldest[of tw sid io Dir] by blast
next
  assume a: "distinct [ID s1, ID s2, ID s3, ID s4, ID s5] \<and>
    sortedSessions (addSessions [s1, s2, s3, s4, s5] (New root pat ext)) srt \<and>
    (\<forall>j<MaxHotSessions. fst (ios j) \<le> now_hot io1) \<and>
    now_hot io1 < now_hot io2 \<and> now_hot io2 < now_hot io3 \<and>
    now_hot io3 < now_hot io4 \<and> now_hot io4 < now_hot io5 \<and>
    now_hot io1 \<le> now_scan io1 \<and> now_hot io2 \<le> now_scan io2 \<and>
    now_hot io3 \<le> now_scan io3 \<and> now_hot io4 \<le> now_scan io4 \<and>
    now_hot io5 \<le> now_scan io5 \<and>
    tw5 = PromoteToHot Dir io5 (ID s5) (PromoteToHot Dir io4 (ID s4)
            (PromoteToHot Dir io3 (ID s3) (PromoteToHot Dir io2 (ID s2)
              (PromoteToHot Dir io1 (ID s1)
                (RegisterSessions Dir ios srt [s1, s2, s3, s4, s5] (New root pat ext))))))"
  let ?tw0 = "RegisterSessions Dir ios srt [s1, s2, s3, s4, s5] (New root pat ext)"
  from a have ids: "distinct [ID s1, ID s2, ID s3, ID s4, ID s5]"
    and srt: "sortedSessions (addSessions [s1, s2, s3, s4, s5] (New root pat ext)) srt"
    and ac: "\<forall>j<MaxHotSessions. fst (ios j) \<le> now_hot io1"
    by blast+
  note b = five_batch[OF ids srt ac, of Dir]
  have len0: "length (hotIDs ?tw0) = MaxHotSessions" using b(2) by (simp add: MaxHotSessions_def)
  have dom0: "{ID s1, ID s2, ID s3, ID s4, ID s5} \<subseteq> dom (sessions ?tw0)" using b(3) by simp
  from a have c: "now_hot io1 < now_hot io2" "now_hot io2 < now_hot io3"
    "now_hot io3 < now_hot io4" "now_hot io4 < now_hot io5"
    "now_hot io1 \<le> now_scan io1" "now_hot io2 \<le> now_scan io2"
    "now_hot io3 \<le> now_scan io3" "now_hot io4 \<le> now_scan io4"
    "now_hot io5 \<le> now_scan io5" by blast+
  from a have tw5: "tw5 = PromoteToHot Dir io5 (ID s5) (PromoteToHot Dir io4 (ID s4)
            (PromoteToHot Dir io3 (ID s3) (PromoteToHot Dir io2 (ID s2)
              (PromoteToHot Dir io1 (ID s1) ?tw0))))" by blast
  note f = five_promoted[OF b(1) len0 dom0 ids c, of Dir, folded tw5]
  show "length (hotIDs tw5) = 3" using f(2) by (simp add: MaxHotSessions_def)
  show "set (hotIDs tw5) = {ID s3, ID s4, ID s5}" by (rule f(1))
  show "ID s1 \<notin> set (hotIDs tw5)" using f(1) ids by auto
  show "ID s2 \<notin> set (hotIDs tw5)" using f(1) ids by auto
  show "dom (sessions tw5) = {ID s1, ID s2, ID s3, ID s4, ID s5}" using f(3) b(3) by simp
qed

theorem C6_promote_evicts_oldest_witness:
  "hotIDs exFull = [''c'', ''b'', ''a''] \<and>
   hotIDs (PromoteToHot exDir (exIo 200) ''d'' exFull) = [''b'', ''a'', ''d''] \<and>
   length (hotIDs exFive) = 3 \<and> set (hotIDs exFive) = {''s3'', ''s4'', ''s5''} \<and>
   ''s1'' \<notin> set (hotIDs exFive) \<and> ''s2'' \<notin> set (hotIDs exFive)"
proof -
  have h1: "sessions exFull ''d'' \<noteq> None \<and> ''d'' \<notin> set (hotIDs exFull) \<and>
    length (hotIDs exFull) = MaxHotSessions \<and> distinct (hotIDs exFull) \<and>
    (\<forall>h\<in>set (hotIDs exFull). \<exists>i. sessions exFull h = Some i \<and> LastHot i \<le> now_hot (exIo 200)) \<and>
    now_hot (exIo 200) \<le> now_scan (exIo 200)"
    by (simp add: ex_defs)
  have h2: "distinct [ID (exInfo ''s1'' 1), ID (exInfo ''s2'' 2), ID (exInfo ''s3'' 3),
                      ID (exInfo ''s4'' 4), ID (exInfo ''s5'' 5)] \<and>
    sortedSessions (addSessions [exInfo ''s1'' 1, exInfo ''s2'' 2, exInfo ''s3'' 3,
        exInfo ''s4'' 4, exInfo ''s5'' 5] (New ''/r'' ''.jsonl'' exExtract))
      [''s5'', ''s4'', ''s3'', ''s2'', ''s1''] \<and>
    (\<forall>j<MaxHotSessions. fst (exIos 100 j) \<le> now_hot (exIo 210)) \<and>
    now_hot (exIo 210) < now_hot (exIo 220) \<and> now_hot (exIo 220) < now_hot (exIo 230) \<and>
    now_hot (exIo 230) < now_hot (exIo 240) \<and> now_hot (exIo 240) < now_hot (exIo 250) \<and>
    now_hot (exIo 210) \<le> now_scan (exIo 210) \<and> now_hot (exIo 220) \<le> now_scan (exIo 220) \<and>
    now_hot (exIo 230) \<le> now_scan (exIo 230) \<and> now_hot (exIo 240) \<le> now_scan (exIo 240) \<and>
    now_hot (exIo 250) \<le> now_scan (exIo 250)"
    by (auto simp: ex_defs)
  note T = C6_promote_evicts_oldest[where tw = exFull and sid = "''d''" and io = "exIo 200"
      and Dir = exDir and ?s1.0 = "exInfo ''s1'' 1" and ?s2.0 = "exInfo ''s2'' 2"
      and ?s3.0 = "exInfo ''s3'' 3" and ?s4.0 = "exInfo ''s4'' 4" and ?s5.0 = "exInfo ''s5'' 5"
      and root = "''/r''" and pat = "''.jsonl''" and ext = exExtract
      and srt = "[''s5'', ''s4'', ''s3'', ''s2'', ''s1'']" and ios = "exIos 100"
      and ?io1.0 = "exIo 210" and ?io2.0 = "exIo 220" and ?io3.0 = "exIo 230"
      and ?io4.0 = "exIo 240" and ?io5.0 = "exIo 250" and ?tw5.0 = exFive]
  have e: "exFive = PromoteToHot exDir (exIo 250) (ID (exInfo ''s5'' 5))
     (PromoteToHot exDir (exIo 240) (ID (exInfo ''s4'' 4))
       (PromoteToHot exDir (exIo 230) (ID (exInfo ''s3'' 3))
         (PromoteToHot exDir (exIo 220) (ID (exInfo ''s2'' 2))
           (PromoteToHot exDir (exIo 210) (ID (exInfo ''s1'' 1))
             (RegisterSessions exDir (exIos 100) [''s5'', ''s4'', ''s3'', ''s2'', ''s1'']
               [exInfo ''s1'' 1, exInfo ''s2'' 2, exInfo ''s3'' 3, exInfo ''s4'' 4,
                exInfo ''s5'' 5] (New ''/r'' ''.jsonl'' exExtract))))))"
    by (simp add: exFive_def exInfo_def)
  note T1 = T[THEN conjunct1, THEN mp, OF h1]
  note T2 = T[THEN conjunct2, THEN mp]
  have five: "length (hotIDs exFive) = 3 \<and>
      set (hotIDs exFive) = {ID (exInfo ''s3'' 3), ID (exInfo ''s4'' 4), ID (exInfo ''s5'' 5)} \<and>
      ID (exInfo ''s1'' 1) \<notin> set (hotIDs exFive) \<and> ID (exInfo ''s2'' 2) \<notin> set (hotIDs exFive) \<and>
      dom (sessions exFive) = {ID (exInfo ''s1'' 1), ID (exInfo ''s2'' 2), ID (exInfo ''s3'' 3),
         ID (exInfo ''s4'' 4), ID (exInfo ''s5'' 5)}"
    apply (rule T2)
    using h2 e apply blast
    done
  from T1 obtain v where "v \<in> set (hotIDs exFull)"
    "hotIDs (PromoteToHot exDir (exIo 200) ''d'' exFull) = remove1 v (hotIDs exFull) @ [''d'']"
    "\<exists>iv. sessions exFull v = Some iv \<and>
          (\<forall>h\<in>set (hotIDs exFull). \<forall>ih. sessions exFull h = Some ih \<longrightarrow>
             LastHot iv \<le> LastHot ih)"
    by blast
  then have one: "hotIDs (PromoteToHot exDir (exIo 200) ''d'' exFull) = [''b'', ''a'', ''d'']"
    by (auto simp: exFull_hot) (simp_all add: ex_defs)
  from five have "length (hotIDs exFive) = 3 \<and> set (hotIDs exFive) = {''s3'', ''s4'', ''s5''} \<and>
     ''s1'' \<notin> set (hotIDs exFive) \<and> ''s2'' \<notin> set (hotIDs exFive)"
    by (simp add: exInfo_def)
  with one exFull_hot show ?thesis by simp
qed

text \<open>
  C10.  Promoting a session ID that was never registered leaves the watcher exactly as it
  was (sessions, hot list, watched directories, pending events and all other fields), and
  the manager's broadcast leaves every watcher and the manager's own queue as they were
  when no watcher knows the ID.
\<close>

theorem C10_promote_unregistered_noop:
  "(sessions tw sid = None \<longrightarrow> PromoteToHot Dir io sid tw = tw) \<and>
   ((\<forall>a w. watchers m a = Some w \<longrightarrow> sessions w sid = None) \<longrightarrow>
      PromoteSession Dir ios sid m = m)"
proof (intro conjI impI)
  assume "sessions tw sid = None"
  then show "PromoteToHot Dir io sid tw = tw"
    by (simp add: PromoteToHot_def)
next
  assume unk: "\<forall>a w. watchers m a = Some w \<longrightarrow> sessions w sid = None"
  have "(\<lambda>a. map_option (PromoteToHot Dir (ios a) sid) (watchers m a)) = watchers m"
  proof
    fix a
    show "map_option (PromoteToHot Dir (ios a) sid) (watchers m a) = watchers m a"
    proof (cases "watchers m a")
      case None
      then show ?thesis by simp
    next
      case (Some w)
      with unk have "sessions w sid = None" by blast
      with Some show ?thesis by (simp add: PromoteToHot_def)
    qed
  qed
  then show "PromoteSession Dir ios sid m = m"
    by (simp add: PromoteSession_def)
qed

theorem C10_promote_unregistered_noop_witness:
  "sessions exFull ''ghost'' = None \<and> sessions exFull ''a'' \<noteq> None \<and>
   PromoteToHot exDir (exIo 200) ''ghost'' exFull = exFull \<and>
   PromoteSession exDir (\<lambda>a. exIo 200) ''ghost'' exManager = exManager"
proof -
  have s: "sessions exFull ''ghost'' = None" "sessions exBatch3 ''ghost'' = None"
    "sessions exFull ''a'' \<noteq> None"
    by (simp_all add: exFull_def RegisterSession_def exBatch3_sessions)
  have m: "\<forall>a w. watchers exManager a = Some w \<longrightarrow> sessions w ''ghost'' = None"
    using s by (auto simp: exManager_def split: if_splits)
  note T = C10_promote_unregistered_noop[where tw = exFull and sid = "''ghost''" and m = exManager
      and Dir = exDir and io = "exIo 200" and ios = "\<lambda>a. exIo 200"]
  from T[THEN conjunct1, THEN mp, OF s(1)] T[THEN conjunct2, THEN mp, OF m] s
  show ?thesis by simp
qed


section \<open>Theorems on the notification consumer\<close>

lemma advance_not_due:
  "(case debounceTimer st of None \<Rightarrow> True | Some (due, ev) \<Rightarrow> t < due) \<Longrightarrow>
   advance stat t (st, tw) = (st, tw)"
  by (auto simp: advance_def split: option.splits)

lemma watchLoop_burst:
  "\<lbrakk>burst ((t, e) # rest); \<forall>x\<in>set ((t, e) # rest). accepted tw (snd x);
    case debounceTimer st of None \<Rightarrow> True | Some (due, ev) \<Rightarrow> t < due\<rbrakk> \<Longrightarrow>
   watchLoop stat ((t, e) # rest) (st, tw) =
     (st\<lparr>lastPath := Name (snd (last ((t, e) # rest))),
         debounceTimer := Some (fst (last ((t, e) # rest)) + debounceDelay,
                                snd (last ((t, e) # rest)))\<rparr>, tw)"
proof (induction rest arbitrary: t e st)
  case Nil
  then show ?case
    by (auto simp: advance_not_due onEvent_def accepted_def Let_def)
next
  case (Cons x rest)
  obtain t2 e2 where x: "x = (t2, e2)" by (cases x)
  let ?st1 = "st\<lparr>lastPath := Name e, debounceTimer := Some (t + debounceDelay, e)\<rparr>"
  have acc: "accepted tw e" using Cons.prems(2) by simp
  have first: "watchLoop stat ((t, e) # x # rest) (st, tw) =
                 watchLoop stat ((t2, e2) # rest) (?st1, tw)"
    using Cons.prems(3) acc by (auto simp: advance_not_due onEvent_def accepted_def x Let_def)
  have b: "burst ((t2, e2) # rest)" and near: "t2 < t + debounceDelay"
    using Cons.prems(1) by (simp_all add: x)
  have a: "\<forall>y\<in>set ((t2, e2) # rest). accepted tw (snd y)"
    using Cons.prems(2) by (simp add: x)
  have nd: "case debounceTimer ?st1 of None \<Rightarrow> True | Some (due, ev) \<Rightarrow> t2 < due"
    using near by simp
  show ?case
    unfolding first Cons.IH[OF b a nd] by (simp add: x)
qed

lemma timerFired_events:
  "\<not> loopClosed st \<Longrightarrow> length (events tw) < eventsCap \<Longrightarrow>
   events (timerFired stat st ev tw) =
     events tw @ (case eventTypeOf (Op ev) of
                    None \<Rightarrow> []
                  | Some ty \<Rightarrow> [\<lparr>Type = ty, SessionID = extractID tw (lastPath st)\<rparr>])"
  by (simp add: timerFired_def sendEvent_def Let_def split: option.splits prod.splits)

text \<open>
  C5, as amended.  The consumer has one debounce timer for all paths.  For every burst of
  accepted events (each less than 100 ms after the one before, whatever their paths),
  received while no timer is pending and the outbound buffer has room, exactly one timer
  fires once the window has settled: it emits one event, for the path and the operation of
  the last event of the burst (create gives \<open>EventSessionCreated\<close>, otherwise write gives
  \<open>EventMessageAdded\<close>, otherwise remove emits nothing, otherwise
  \<open>EventSessionUpdated\<close>), and nothing for the earlier events.
\<close>

theorem C5_burst_one_event:
  assumes b: "burst evs" and ne: "evs \<noteq> []"
    and acc: "\<forall>x\<in>set evs. accepted tw (snd x)"
    and idle: "debounceTimer st = None" and running: "\<not> loopClosed st"
    and room: "length (events tw) < eventsCap"
    and settled: "fst (last evs) + debounceDelay \<le> T"
  shows "events (snd (advance stat T (watchLoop stat evs (st, tw)))) =
           events tw @
             (case eventTypeOf (Op (snd (last evs))) of
                None \<Rightarrow> []
              | Some ty \<Rightarrow> [\<lparr>Type = ty, SessionID = extractID tw (Name (snd (last evs)))\<rparr>]) \<and>
         debounceTimer (fst (advance stat T (watchLoop stat evs (st, tw)))) = None"
proof -
  from ne obtain t e rest where evs: "evs = (t, e) # rest" by (cases evs) auto
  have nd: "case debounceTimer st of None \<Rightarrow> True | Some (due, ev) \<Rightarrow> t < due"
    using idle by simp
  note L = watchLoop_burst[OF b[unfolded evs] acc[unfolded evs] nd, of stat, folded evs]
  let ?st' = "st\<lparr>lastPath := Name (snd (last evs)),
                 debounceTimer := Some (fst (last evs) + debounceDelay, snd (last evs))\<rparr>"
  have r: "\<not> loopClosed ?st'" using running by simp
  have adv: "advance stat T (?st', tw) =
      (?st'\<lparr>debounceTimer := None\<rparr>,
       timerFired (stat (fst (last evs) + debounceDelay) (Name (snd (last evs)))) ?st'
         (snd (last evs)) tw)"
    using settled by (simp add: advance_def)
  have ev: "events (timerFired (stat (fst (last evs) + debounceDelay) (Name (snd (last evs))))
                     ?st' (snd (last evs)) tw) =
      events tw @
        (case eventTypeOf (Op (snd (last evs))) of
           None \<Rightarrow> []
         | Some ty \<Rightarrow> [\<lparr>Type = ty, SessionID = extractID tw (Name (snd (last evs)))\<rparr>])"
    using timerFired_events[OF r room] by (simp split: option.splits)
  show ?thesis
    by (simp only: L adv ev snd_conv fst_conv) simp
qed

theorem C5_burst_one_event_witness:
  "burst exOnePath \<and> exOnePath \<noteq> [] \<and>
   events (snd (advance exStat second (watchLoop exStat exOnePath (exLoop0, exBatch3)))) =
     [\<lparr>Type = EventMessageAdded, SessionID = ''a''\<rparr>] \<and>
   debounceTimer (fst (advance exStat second (watchLoop exStat exOnePath (exLoop0, exBatch3)))) =
     None"
proof -
  have b: "burst exOnePath" and ne: "exOnePath \<noteq> []"
    by (simp_all add: exOnePath_def debounceDelay_def millisecond_def)
  have acc: "\<forall>x\<in>set exOnePath. accepted exBatch3 (snd x)"
    by (simp add: exOnePath_def accepted_def filepathExt_def ex_defs)
  have idle: "debounceTimer exLoop0 = None" and running: "\<not> loopClosed exLoop0"
    by (simp_all add: exLoop0_def)
  have room: "length (events exBatch3) < eventsCap"
    by (simp add: eventsCap_def ex_defs)
  have settled: "fst (last exOnePath) + debounceDelay \<le> second"
    by (simp add: exOnePath_def debounceDelay_def millisecond_def second_def)
  have ext: "extractID exBatch3 (Name (snd (last exOnePath))) = ''a''"
    by (simp add: exOnePath_def exExtract_def filepathBase_def trimSuffix_def hasSuffix_def
        ex_defs)
  have ty: "eventTypeOf (Op (snd (last exOnePath))) = Some EventMessageAdded"
    by (simp add: exOnePath_def eventTypeOf_def Create_def Write_def)
  have ev0: "events exBatch3 = []" by (simp add: ex_defs)
  from C5_burst_one_event[OF b ne acc idle running room settled, of exStat] b ne
  show ?thesis by (simp add: ext ty ev0)
qed

text \<open>
  C5 as stated fails: a write to \<open>/r/a.jsonl\<close> followed ten milliseconds later by a write
  to \<open>/r/b.jsonl\<close> yields one event, for \<open>b\<close>, and none for \<open>a\<close>.
\<close>

theorem C5_distinct_paths_counterexample:
  "burst exTwoPaths \<and> accepted exBatch3 (snd (exTwoPaths ! 0)) \<and>
   accepted exBatch3 (snd (exTwoPaths ! 1)) \<and>
   events exBatch3 = [] \<and>
   events (snd (advance exStat second (watchLoop exStat exTwoPaths (exLoop0, exBatch3)))) =
     [\<lparr>Type = EventMessageAdded, SessionID = ''b''\<rparr>] \<and>
   exExtract ''/r/a.jsonl'' = ''a'' \<and>
   ''a'' \<notin> set (map SessionID
      (events (snd (advance exStat second (watchLoop exStat exTwoPaths (exLoop0, exBatch3))))))"
  by (simp add: exTwoPaths_def exLoop0_def exStat_def exExtract_def advance_def onEvent_def
      timerFired_def sendEvent_def eventTypeOf_def accepted_def filepathExt_def filepathBase_def
      trimSuffix_def hasSuffix_def debounceDelay_def millisecond_def second_def eventsCap_def
      Create_def Write_def Remove_def ex_defs Let_def)

section \<open>Theorems on the metadata cache\<close>

lemma update_absent_length:
  "k \<notin> fst ` set al \<Longrightarrow> length (AList.update k v al) = Suc (length al)"
  by (induction al) auto

lemma delete_update_length:
  assumes "map_of c k = Some v0"
  shows "length (AList.update k v (AList.delete k c)) \<le> length c"
proof -
  have notin: "k \<notin> fst ` set (AList.delete k c)" by (simp add: AList.delete_eq image_iff)
  from assms have "(k, v0) \<in> set c" by (rule map_of_SomeD)
  then have "length (filter (\<lambda>(k', _). k \<noteq> k') c) < length c"
    by (rule length_filter_less) simp
  then have "length (AList.delete k c) < length c" by (simp add: AList.delete_eq)
  moreover have "length (AList.update k v (AList.delete k c)) = Suc (length (AList.delete k c))"
    using notin by (rule update_absent_length)
  ultimately show ?thesis by simp
qed

text \<open>
  C9.  A lookup is a hit exactly when the cache holds an entry for the path whose stored
  modification time and size both equal those of the live file, and a hit returns the
  stored value.  An entry that differs in either (a changed modification time with an
  unchanged size included) is a miss: the lookup returns \<open>("", false)\<close>, the entry
  is deleted, and \<open>getCodexSessionCWD\<close> returns what the scan of the file yields, never
  the stored value; when the scan finds a working directory and the cache is within its
  bound, the cache then holds it under the live modification time and size.
\<close>

theorem C9_cache_hit_iff_exact_match:
  "(snd (fst (cachedCodexSessionCWD now path info c)) \<longleftrightarrow>
      (\<exists>entry. map_of c path = Some entry \<and> modTime entry = infoModTime info \<and>
               sizeBytes entry = infoSize info)) \<and>
   (\<forall>entry. map_of c path = Some entry \<and> modTime entry = infoModTime info \<and>
             sizeBytes entry = infoSize info \<longrightarrow>
      fst (cachedCodexSessionCWD now path info c) = (cwd entry, True)) \<and>
   (\<forall>entry. map_of c path = Some entry \<and>
             (modTime entry \<noteq> infoModTime info \<or> sizeBytes entry \<noteq> infoSize info) \<longrightarrow>
      cachedCodexSessionCWD now path info c = (([], False), AList.delete path c) \<and>
      map_of (AList.delete path c) path = None \<and>
      fst (getCodexSessionCWD fs now path info c) =
        (case scanLines fs path of
           None \<Rightarrow> Inl OpenError
         | Some lines \<Rightarrow> Inr (case firstMeta lines of Some w \<Rightarrow> w | None \<Rightarrow> [])) \<and>
      (\<forall>lines w. scanLines fs path = Some lines \<and> firstMeta lines = Some w \<and>
                 length c \<le> codexCwdCacheMaxEntries \<longrightarrow>
         map_of (snd (getCodexSessionCWD fs now path info c)) path =
           Some \<lparr>cwd = w, modTime = infoModTime info, sizeBytes = infoSize info,
                 lastAccess = now\<rparr>))"
proof (intro conjI allI impI)
  show "snd (fst (cachedCodexSessionCWD now path info c)) \<longleftrightarrow>
      (\<exists>entry. map_of c path = Some entry \<and> modTime entry = infoModTime info \<and>
               sizeBytes entry = infoSize info)"
    by (auto simp: cachedCodexSessionCWD_def split: option.splits)
next
  fix entry
  assume "map_of c path = Some entry \<and> modTime entry = infoModTime info \<and>
             sizeBytes entry = infoSize info"
  then show "fst (cachedCodexSessionCWD now path info c) = (cwd entry, True)"
    by (simp add: cachedCodexSessionCWD_def)
next
  fix entry
  assume a: "map_of c path = Some entry \<and>
             (modTime entry \<noteq> infoModTime info \<or> sizeBytes entry \<noteq> infoSize info)"
  then show miss: "cachedCodexSessionCWD now path info c = (([], False), AList.delete path c)"
    by (auto simp: cachedCodexSessionCWD_def)
  show "map_of (AList.delete path c) path = None"
    by (simp add: AList.delete_conv')
  show "fst (getCodexSessionCWD fs now path info c) =
        (case scanLines fs path of
           None \<Rightarrow> Inl OpenError
         | Some lines \<Rightarrow> Inr (case firstMeta lines of Some w \<Rightarrow> w | None \<Rightarrow> []))"
    by (simp add: getCodexSessionCWD_def miss split: option.splits)
  fix lines w
  assume b: "scanLines fs path = Some lines \<and> firstMeta lines = Some w \<and>
                 length c \<le> codexCwdCacheMaxEntries"
  let ?e = "\<lparr>cwd = w, modTime = infoModTime info, sizeBytes = infoSize info, lastAccess = now\<rparr>"
  have r: "snd (getCodexSessionCWD fs now path info c) =
             pruneCodexSessionCWDCacheLocked (AList.update path ?e (AList.delete path c))"
    using b by (simp add: getCodexSessionCWD_def miss setCodexSessionCWDCache_def)
  have "length (AList.update path ?e (AList.delete path c)) \<le> codexCwdCacheMaxEntries"
    using delete_update_length[of c path entry ?e] a b by simp
  then have "pruneCodexSessionCWDCacheLocked (AList.update path ?e (AList.delete path c)) =
               AList.update path ?e (AList.delete path c)"
    by (simp add: pruneCodexSessionCWDCacheLocked_def)
  with r show "map_of (snd (getCodexSessionCWD fs now path info c)) path = Some ?e"
    by (simp add: AList.update_conv')
qed

theorem C9_cache_hit_iff_exact_match_witness:
  "map_of exCache ''/s/r1.jsonl'' = Some exEntry \<and>
   cachedCodexSessionCWD 9 ''/s/r1.jsonl'' \<lparr>infoModTime = 100, infoSize = 50\<rparr> exCache =
     ((''/old'', True), AList.update ''/s/r1.jsonl'' (exEntry\<lparr>lastAccess := 9\<rparr>) exCache) \<and>
   cachedCodexSessionCWD 9 ''/s/r1.jsonl'' \<lparr>infoModTime = 200, infoSize = 50\<rparr> exCache =
     (([], False), AList.delete ''/s/r1.jsonl'' exCache) \<and>
   fst (getCodexSessionCWD exMetaFs 9 ''/s/r1.jsonl'' \<lparr>infoModTime = 200, infoSize = 50\<rparr> exCache) =
     Inr ''/new'' \<and>
   map_of (snd (getCodexSessionCWD exMetaFs 9 ''/s/r1.jsonl''
                  \<lparr>infoModTime = 200, infoSize = 50\<rparr> exCache)) ''/s/r1.jsonl'' =
     Some \<lparr>cwd = ''/new'', modTime = 200, sizeBytes = 50, lastAccess = 9\<rparr>"
proof -
  have e: "map_of exCache ''/s/r1.jsonl'' = Some exEntry" by (simp add: exCache_def)
  have stale: "map_of exCache ''/s/r1.jsonl'' = Some exEntry \<and>
     (modTime exEntry \<noteq> infoModTime \<lparr>infoModTime = 200, infoSize = 50\<rparr> \<or>
      sizeBytes exEntry \<noteq> infoSize \<lparr>infoModTime = 200, infoSize = 50\<rparr>)"
    by (simp add: exCache_def exEntry_def)
  have sc: "scanLines exMetaFs ''/s/r1.jsonl'' =
      Some [None, Some (JObj [(''type'', JStr ''session_meta''),
                              (''payload'', JObj [(''cwd'', JStr ''/new'')])])]"
    by (simp add: exMetaFs_def)
  have fm: "firstMeta [None, Some (JObj [(''type'', JStr ''session_meta''),
                              (''payload'', JObj [(''cwd'', JStr ''/new'')])])] = Some ''/new''"
    by (simp add: metaLine_def strField_def)
  have len: "length exCache \<le> codexCwdCacheMaxEntries"
    by (simp add: exCache_def codexCwdCacheMaxEntries_def)
  note T = C9_cache_hit_iff_exact_match[where c = exCache and path = "''/s/r1.jsonl''"
      and info = "\<lparr>infoModTime = 200, infoSize = 50\<rparr>" and now = 9 and fs = exMetaFs]
  note M = T[THEN conjunct2, THEN conjunct2, rule_format, OF stale]
  have same: "map_of exCache ''/s/r1.jsonl'' = Some exEntry \<and>
     modTime exEntry = infoModTime \<lparr>infoModTime = 100, infoSize = 50\<rparr> \<and>
     sizeBytes exEntry = infoSize \<lparr>infoModTime = 100, infoSize = 50\<rparr>"
    by (simp add: exCache_def exEntry_def)
  note H = C9_cache_hit_iff_exact_match[where c = exCache and path = "''/s/r1.jsonl''"
      and info = "\<lparr>infoModTime = 100, infoSize = 50\<rparr>" and now = 9 and fs = exMetaFs,
      THEN conjunct2, THEN conjunct1, rule_format, OF same]
  have "snd (cachedCodexSessionCWD 9 ''/s/r1.jsonl'' \<lparr>infoModTime = 100, infoSize = 50\<rparr> exCache) =
     AList.update ''/s/r1.jsonl'' (exEntry\<lparr>lastAccess := 9\<rparr>) exCache"
    by (simp add: cachedCodexSessionCWD_def exCache_def exEntry_def)
  with H have hit: "cachedCodexSessionCWD 9 ''/s/r1.jsonl'' \<lparr>infoModTime = 100, infoSize = 50\<rparr> exCache =
     ((''/old'', True), AList.update ''/s/r1.jsonl'' (exEntry\<lparr>lastAccess := 9\<rparr>) exCache)"
    by (simp add: prod_eq_iff exEntry_def)
  have m1: "cachedCodexSessionCWD 9 ''/s/r1.jsonl'' \<lparr>infoModTime = 200, infoSize = 50\<rparr> exCache =
     (([], False), AList.delete ''/s/r1.jsonl'' exCache)"
    by (rule M[THEN conjunct1])
  have m2: "fst (getCodexSessionCWD exMetaFs 9 ''/s/r1.jsonl''
       \<lparr>infoModTime = 200, infoSize = 50\<rparr> exCache) = Inr ''/new''"
    using M[THEN conjunct2, THEN conjunct2, THEN conjunct1]
    by (simp only: sc fm option.case)
  have m3: "map_of (snd (getCodexSessionCWD exMetaFs 9 ''/s/r1.jsonl''
                  \<lparr>infoModTime = 200, infoSize = 50\<rparr> exCache)) ''/s/r1.jsonl'' =
     Some \<lparr>cwd = ''/new'', modTime = 200, sizeBytes = 50, lastAccess = 9\<rparr>"
    using M[THEN conjunct2, THEN conjunct2, THEN conjunct2, rule_format,
            OF conjI[OF sc conjI[OF fm len]]]
    by simp
  from e hit m1 m2 m3 show ?thesis by simp
qed

section \<open>Theorems on the classifiers\<close>

lemma claudeScan_skip:
  "list_all (\<lambda>l. claudeLine l = None) xs \<Longrightarrow> claudeScan (xs @ ys) = claudeScan ys"
  by (induction xs) auto



lemma getClaude_lastRecognized:
  assumes "lastRecognized fs f msg" and "claudeLine (Some (JObj msg)) = Some st"
  shows "getClaudeSessionStatus fs f = (st, True)"
proof -
  from assms(1) obtain before after where
    t: "tailLines fs f = Some (before @ Some (JObj msg) # after)"
    and a: "list_all (\<lambda>l. claudeLine l = None) after"
    unfolding lastRecognized_def by blast
  have "list_all (\<lambda>l. claudeLine l = None) (rev after)" using a by (simp add: list_all_iff)
  then have "claudeScan (rev after @ Some (JObj msg) # rev before) =
               claudeScan (Some (JObj msg) # rev before)"
    by (rule claudeScan_skip)
  then show ?thesis using t assms(2) by (simp add: getClaudeSessionStatus_def)
qed

lemma claudeLine_user: "userEntry msg \<Longrightarrow> claudeLine (Some (JObj msg)) = Some StatusActive"
  by (simp add: userEntry_def claudeLine_def)








lemma claudeCandidates_skip:
  "list_all (\<lambda>g. \<not> snd (getClaudeSessionStatus fs g)) skipped \<Longrightarrow>
   claudeCandidates fs now d (skipped @ rest) = claudeCandidates fs now d rest"
  by (induction skipped) (auto split: prod.splits)

lemma detectClaude_files:
  "claudeFiles fs w d files \<Longrightarrow>
   detectClaudeSessionStatus fs now w = claudeCandidates fs now d files"
  by (auto simp: claudeFiles_def detectClaudeSessionStatus_def Let_def)

lemma detectClaude_chosen:
  assumes "claudeFiles fs w d files" and "chosen fs files f"
  shows "\<exists>rest. detectClaudeSessionStatus fs now w = claudeCandidates fs now d (f # rest)"
proof -
  from assms(2) obtain skipped rest where
    "files = skipped @ f # rest" "list_all (\<lambda>g. \<not> snd (getClaudeSessionStatus fs g)) skipped"
    unfolding chosen_def by blast
  then show ?thesis
    using detectClaude_files[OF assms(1)] claudeCandidates_skip by metis
qed

text \<open>What the loop returns at a candidate that has a status.\<close>

lemma claudeCandidates_head:
  assumes "getClaudeSessionStatus fs f = (st, True)"
  shows "claudeCandidates fs now d (f # rest) =
     (if st = StatusActive then
        (if isFileRecentlyModified fs now f claudeActivityThreshold
         then (StatusActive, True) else (StatusThinking, True))
      else if st = StatusThinking then (StatusThinking, True)
      else if isFileRecentlyModified fs now f claudeActivityThreshold then (StatusActive, True)
      else if snd (subagentStatus fs now (subagentsDirOf d f) claudeActivityThreshold)
      then (fst (subagentStatus fs now (subagentsDirOf d f) claudeActivityThreshold), True)
      else (st, True))"
  using assms by (simp add: subagentsDirOf_def Let_def split: prod.splits)

lemma fresh_iff:
  "statModTime fs f = Some mt \<Longrightarrow> isFileRecentlyModified fs now f th = (now - mt < th)"
  by (simp add: isFileRecentlyModified_def)

lemma tailLines_irrelevant [simp]:
  "findRecentJSONLFiles (fs\<lparr>tailLines := c\<rparr>) dir pre = findRecentJSONLFiles fs dir pre"
  "isFileRecentlyModified (fs\<lparr>tailLines := c\<rparr>) now f th = isFileRecentlyModified fs now f th"
  by (simp_all add: findRecentJSONLFiles_def isFileRecentlyModified_def)


lemmas fs_defs = mkFs_def exFile_def exNow_def second_def minute_def exProj_def exS1_def exS2_def
  exSub_def exAgent_def exOneFile_def exWithSub_def exAbandoned_def exPiDir_def exPiNew_def
  exPiOld_def exPi_def exCodexFile_def exFindCodex_def exCodex_def

lemmas det_defs = detectClaudeSessionStatus_def claudeProjectDir_def claudeProjectDirName_def
  inRange_def joinPath_def findRecentJSONLFiles_def hasSuffix_def hasPrefix_def trimSuffix_def
  trimPrefix_def filepathBase_def getClaudeSessionStatus_def claudeLine_def
  isPlaceholderAssistant_def placeholderBlock_def hasToolUse_def toolUseBlock_def blankText_def
  isSpace_def isFileRecentlyModified_def claudeActivityThreshold_def sessionActivityThreshold_def
  subagentMaxStaleness_def subagentStatus_def detectPiSessionStatus_def piProjectDir_def
  getPiLastMessageStatus_def piLine_def strField_def detectCodexSessionStatus_def
  getCodexLastMessageStatus_def codexLine_def subagentsDirOf_def

lemmas msg_defs = userMsg_def asstMsg_def textBlockOf_def toolBlock_def snapshotLine_def piMsg_def
  userEntry_def assistantEntry_def textOnly_def isTextBlock_def hasVisibleText_def

lemma chosen_head: "chosen fs (f # rest) f"
  unfolding chosen_def by (rule exI[of _ "[]"]) simp

lemma chosen_second: "\<not> snd (getClaudeSessionStatus fs g) \<Longrightarrow> chosen fs (g # f # rest) f"
  unfolding chosen_def by (rule exI[of _ "[g]"]) simp

lemma lastRecognizedI:
  "tailLines fs p = Some (before @ Some (JObj msg) # after) \<Longrightarrow>
   list_all (\<lambda>l. claudeLine l = None) after \<Longrightarrow> lastRecognized fs p msg"
  unfolding lastRecognized_def by blast

lemma exOneFile_files: "claudeFiles (exOneFile age tail) ''/w'' exProj [exS1]"
  by (simp add: claudeFiles_def fs_defs det_defs)












text \<open>
  C7.  Principal format: when the last recognized entry of the chosen candidate file is a
  user message, the result is \<open>(Thinking, true)\<close> if the file was modified 5 s ago or
  more and \<open>(Active, true)\<close> if it was modified less than 5 s ago.
\<close>

theorem C7_trailing_user:
  assumes files: "claudeFiles fs w d files" and ch: "chosen fs files f"
    and last: "lastRecognized fs f msg" and user: "userEntry msg"
    and mt: "statModTime fs f = Some mt"
  shows "(claudeActivityThreshold \<le> now - mt \<longrightarrow>
            detectClaudeSessionStatus fs now w = (StatusThinking, True)) \<and>
         (now - mt < claudeActivityThreshold \<longrightarrow>
            detectClaudeSessionStatus fs now w = (StatusActive, True))"
proof -
  have st: "getClaudeSessionStatus fs f = (StatusActive, True)"
    by (rule getClaude_lastRecognized[OF last claudeLine_user[OF user]])
  from detectClaude_chosen[OF files ch] obtain rest where
    "detectClaudeSessionStatus fs now w = claudeCandidates fs now d (f # rest)" by blast
  then show ?thesis
    by (simp add: claudeCandidates_head[OF st] fresh_iff[OF mt] del: claudeCandidates.simps)
qed

theorem C7_trailing_user_witness:
  "detectClaudeSessionStatus
     (exOneFile (10 * second)
        [Some (JObj (asstMsg [textBlockOf ''x''])), Some (JObj userMsg), snapshotLine])
     exNow ''/w'' = (StatusThinking, True) \<and>
   detectClaudeSessionStatus
     (exOneFile (2 * second)
        [Some (JObj (asstMsg [textBlockOf ''x''])), Some (JObj userMsg), snapshotLine])
     exNow ''/w'' = (StatusActive, True)"
proof -
  let ?tail = "[Some (JObj (asstMsg [textBlockOf ''x''])), Some (JObj userMsg), snapshotLine]"
  have last: "lastRecognized (exOneFile age ?tail) exS1 userMsg" for age
    by (rule lastRecognizedI[where before = "[Some (JObj (asstMsg [textBlockOf ''x'']))]"
          and after = "[snapshotLine]"])
       (simp_all add: fs_defs claudeLine_def msg_defs)
  have user: "userEntry userMsg" by (simp add: msg_defs)
  have mt: "statModTime (exOneFile age ?tail) exS1 = Some (exNow - age)" for age
    by (simp add: fs_defs)
  note A = C7_trailing_user[OF exOneFile_files chosen_head last[of "10 * second"] user
      mt[of "10 * second"], where now = exNow]
  note B = C7_trailing_user[OF exOneFile_files chosen_head last[of "2 * second"] user
      mt[of "2 * second"], where now = exNow]
  from A B show ?thesis
    by (simp add: claudeActivityThreshold_def second_def)
qed




end
